theory Spec2Isabelle
  imports Complex_Main "HOL-Library.Multiset"
begin

section \<open>Data model\<close>

text \<open>
  The simulator of \<^verbatim>\<open>src/simulator/simulator.ts\<close> is a state reducer over immutable
  values. JavaScript numbers are modelled by \<open>nat\<close> where the code uses them as small
  non-negative integers (suits, ranks, seat and array indices), by \<open>int\<close> for points
  and scores, and by \<open>real\<close> for rewards and qualities; the rewards the engine hands
  out are small multiples of one quarter, which a double represents exactly.
\<close>

record Card =
  suit :: nat
  rank :: nat

text \<open>
  Modelled from the spec: the table \<^verbatim>\<open>suits\<close> of \<^verbatim>\<open>src/simulator/index.ts\<close> is not
  part of the sources at hand. The code uses a suit as an index into the four
  \<^verbatim>\<open>playsOutOfSuit\<close> flags, so the four suits are numbered from 0 to 3, here in the
  order in which the spec lists them (clubs, diamonds, spades, hearts). The theorems
  below only use that the four numbers are distinct and smaller than 4.
\<close>

definition suits_clubs :: nat where "suits_clubs = 0"
definition suits_diamonds :: nat where "suits_diamonds = 1"
definition suits_spades :: nat where "suits_spades = 2"
definition suits_hearts :: nat where "suits_hearts = 3"

text \<open>\<^verbatim>\<open>Object.keys(suits)\<close>, each key already looked up in the table.\<close>

definition suits_keys :: "nat list" where
  "suits_keys = [suits_clubs, suits_diamonds, suits_spades, suits_hearts]"

record Trick =
  suit :: "nat option"
  cards :: "Card list"

text \<open>
  A \<^verbatim>\<open>Player\<close> object also carries its policy and an internal recorder
  (\<^verbatim>\<open>recordAction\<close>, \<^verbatim>\<open>assignReward\<close>, \<^verbatim>\<open>terminate\<close>). The policy is a function of
  the state, so it cannot be a field of a value stored in the state; policies and
  recorders are kept per seat, beside the state (see the game state machine below).
\<close>

record Player =
  hand :: "Card list"
  score :: int
  playsOutOfSuit :: "bool list"

record State =
  players :: "Player list"
  trick :: Trick
  heartsBroken :: bool
  simplified :: bool
  trickLeader :: nat

record 'f ActionSummary =
  action :: Card
  quality :: real
  trace :: 'f

section \<open>Rules engine\<close>

text \<open>
  \<^verbatim>\<open>trickWinner\<close> reduces the trick's cards from the left, starting from \<^verbatim>\<open>null\<close>.
  The test \<^verbatim>\<open>card !== undefined\<close> of the source is always true for the elements of
  a \<^verbatim>\<open>Card[]\<close>.
\<close>

definition trickWinner :: "Trick \<Rightarrow> Card option" where
  "trickWinner t =
     foldl (\<lambda>winner c.
              if (Some (Card.suit c) = Trick.suit t \<or> Trick.suit t = None) \<and>
                 (case winner of None \<Rightarrow> True | Some w \<Rightarrow> rank c > rank w)
              then Some c else winner)
           None (cards t)"

definition cardPoints :: "Card \<Rightarrow> bool \<Rightarrow> int" where
  "cardPoints c simpl =
     (let isHeart = (Card.suit c = suits_hearts);
          isSpade = (Card.suit c = suits_spades);
          isQueen = (rank c = 12)
      in if isHeart then 1
         else if \<not> simpl \<and> isQueen \<and> isSpade then 13
         else 0)"

definition trickPoints :: "Trick \<Rightarrow> bool \<Rightarrow> int" where
  "trickPoints t simpl = foldl (\<lambda>total c. total + cardPoints c simpl) 0 (cards t)"

text \<open>
  \<^verbatim>\<open>validPlays\<close> reads the fields \<^verbatim>\<open>trick.suit\<close>, \<^verbatim>\<open>simplified\<close> and
  \<^verbatim>\<open>heartsBroken\<close> of its first argument, which is always a state.
\<close>

definition validPlays :: "State \<Rightarrow> Card list \<Rightarrow> Card list" where
  "validPlays st hnd =
     (case Trick.suit (trick st) of
        Some s \<Rightarrow>
          (let hasSuit = foldl (\<lambda>hasSuit c. hasSuit \<or> Card.suit c = s) False hnd
           in if hasSuit then filter (\<lambda>c. Card.suit c = s) hnd else hnd)
      | None \<Rightarrow>
          if simplified st \<or> heartsBroken st then hnd
          else (let plays = filter (\<lambda>c. cardPoints c (simplified st) = 0) hnd
                in if length plays = 0 then hnd else plays))"


text \<open>
  \<^verbatim>\<open>playerWithCard\<close> takes the key of a suit and looks it up in the table; the model
  takes the suit's number.
\<close>

definition playerWithCard :: "Player list \<Rightarrow> nat \<Rightarrow> nat \<Rightarrow> Player option" where
  "playerWithCard ps s r =
     find (\<lambda>player. find (\<lambda>c. Card.suit c = s \<and> rank c = r) (hand player) \<noteq> None) ps"

section \<open>Card model: deck and shuffle\<close>

text \<open>
  Modelled from the spec: \<^verbatim>\<open>card.create\<close> of \<^verbatim>\<open>src/simulator/index.ts\<close> is not part
  of the sources at hand; a card is the value made of its suit and rank, and two cards
  are the same card when both agree.
\<close>

definition card_create :: "nat \<Rightarrow> nat \<Rightarrow> Card" where
  "card_create s r = \<lparr>Card.suit = s, rank = r\<rparr>"

definition freshDeck :: "Card list" where
  "freshDeck = concat (map (\<lambda>s. map (\<lambda>r. card_create s r) [2..<15]) suits_keys)"

text \<open>
  The random source is a stateful function; it is modelled by the sequence of the
  values it returns, \<open>random i\<close> being the value of call number \<open>i\<close>.
  \<^verbatim>\<open>x | 0\<close> is JavaScript's conversion to a signed 32-bit integer: truncation towards
  zero, then wrap-around modulo \<open>2 ^ 32\<close>.
\<close>

definition toInt32 :: "real \<Rightarrow> int" where
  "toInt32 x =
     (let n = (if 0 \<le> x then \<lfloor>x\<rfloor> else \<lceil>x\<rceil>); m = n mod 2 ^ 32
      in if 2 ^ 31 \<le> m then m - 2 ^ 32 else m)"

text \<open>
  One iteration of the loop of \<^verbatim>\<open>shuffleDeck\<close>: swap positions \<open>i\<close> and \<open>j\<close>. When
  \<open>j\<close> is not an index of the deck the source stores \<^verbatim>\<open>undefined\<close> in the deck
  (and grows the array when \<open>j\<close> is beyond its end); a deck of cards cannot represent
  that, and the model stops with \<open>None\<close>. A random source that behaves as
  \<^verbatim>\<open>Math.random\<close> does, with values in \<open>[0, 1)\<close>, never gets there.
\<close>

definition shuffleStep :: "(nat \<Rightarrow> real) \<Rightarrow> Card list option \<Rightarrow> nat \<Rightarrow> Card list option" where
  "shuffleStep random d i =
     (case d of
        None \<Rightarrow> None
      | Some deck \<Rightarrow>
          (let j = toInt32 (random i * real (length deck))
           in if 0 \<le> j \<and> j < int (length deck)
              then (let t = deck ! i in Some ((deck[i := deck ! nat j])[nat j := t]))
              else None))"

definition shuffleDeck :: "Card list \<Rightarrow> (nat \<Rightarrow> real) \<Rightarrow> Card list option" where
  "shuffleDeck deck random = foldl (shuffleStep random) (Some deck) [0..<length deck]"

section \<open>Game state machine\<close>

text \<open>\<^verbatim>\<open>Array.prototype.map\<close> with a callback that also takes the index.\<close>

definition mapIdx :: "('a \<Rightarrow> nat \<Rightarrow> 'b) \<Rightarrow> 'a list \<Rightarrow> 'b list" where
  "mapIdx f xs = map (\<lambda>k. f (xs ! k) k) [0..<length xs]"

text \<open>\<^verbatim>\<open>Array.prototype.indexOf\<close>, with \<open>None\<close> for \<open>-1\<close>.\<close>

fun indexOf :: "'a list \<Rightarrow> 'a \<Rightarrow> nat option" where
  "indexOf [] x = None"
| "indexOf (y # ys) x = (if y = x then Some 0 else map_option Suc (indexOf ys x))"

text \<open>\<^verbatim>\<open>Array.prototype.slice\<close> for bounds that are not negative.\<close>

definition slice :: "'a list \<Rightarrow> nat \<Rightarrow> nat \<Rightarrow> 'a list" where
  "slice xs a b = take (b - a) (drop a xs)"

text \<open>
  Modelled from the spec: \<^verbatim>\<open>range\<close> of \<^verbatim>\<open>src/utils/range.ts\<close> is not part of the
  sources at hand; \<open>range_list n\<close> yields \<open>0, \<dots>, n - 1\<close> (a round is 4 plays, a game is
  13 rounds).
\<close>

definition range_list :: "nat \<Rightarrow> nat list" where
  "range_list n = [0..<n]"

text \<open>
  A policy maps the state, the acting player and the offered plays to its candidates.
  The player objects are created by \<^verbatim>\<open>createPlayer\<close> of \<^verbatim>\<open>src/simulator/index.ts\<close>,
  which is not part of the sources at hand, and so are their methods. The model keeps,
  for every seat, the policy of the seat's player (the field never changes) and the
  list of the calls the simulator makes on the seat's player object, in order:
  \<^verbatim>\<open>policy(state, player, plays)\<close>, \<^verbatim>\<open>recordAction(state, action, quality, trace)\<close>
  and \<^verbatim>\<open>assignReward(amount)\<close>.

  The source compares player objects by identity (\<^verbatim>\<open>player === actor\<close>). The four
  players of a state are four different objects, so a player is identified by its
  seat: the model passes the seat where the source passes the object.
\<close>

type_synonym 'f Policy = "State \<Rightarrow> Player \<Rightarrow> Card list \<Rightarrow> 'f ActionSummary list"

datatype 'f Call =
    PolicyCall State "Card list"
  | RecordAction State Card real 'f
  | AssignReward real

type_synonym 'f Recorders = "nat \<Rightarrow> 'f Call list"

datatype error =
    NoPlayDetermined
  | NoTrickWinner
  | WinningCardNotFound
  | NoWinningPlayer
  | TwoOfClubsNotDealt
  | NoPlayerMatched
  | EmptyHistory
  | UndefinedPlayer
  | DeckIndexOutOfRange

text \<open>
  A reducer returns the new state, or throws. The calls made on the players up to
  then have been made either way, so both outcomes carry the recorders.
\<close>

type_synonym 'f Outcome = "error \<times> 'f Recorders + State \<times> 'f Recorders"

definition errorOf :: "'f Outcome \<Rightarrow> error option" where
  "errorOf out = (case out of Inl (e, rec) \<Rightarrow> Some e | Inr sr \<Rightarrow> None)"

definition recordersOf :: "'f Outcome \<Rightarrow> 'f Recorders" where
  "recordersOf out = (case out of Inl (e, rec) \<Rightarrow> rec | Inr (st, rec) \<Rightarrow> rec)"

text \<open>
  Modelled from the spec: \<^verbatim>\<open>createPlayer\<close> is not part of the sources at hand; a new
  player holds the dealt hand, has no penalty points and has not played out of any
  of the four suits.
\<close>

definition createPlayer :: "Card list \<Rightarrow> Player" where
  "createPlayer hnd = \<lparr>hand = hnd, Player.score = 0, playsOutOfSuit = [False, False, False, False]\<rparr>"

text \<open>State reducer for playing a single card (\<^verbatim>\<open>playCard\<close>, lines 134 to 166).\<close>

definition playCard ::
  "State \<Rightarrow> 'f Recorders \<Rightarrow> nat \<Rightarrow> 'f ActionSummary \<Rightarrow> State \<times> 'f Recorders" where
  "playCard st rec actor summ =
     (let a = ActionSummary.action summ;
          t = trick st;
          rec' = rec(actor := rec actor @
                   [RecordAction st a (ActionSummary.quality summ) (ActionSummary.trace summ)])
      in (st\<lparr>players :=
               mapIdx (\<lambda>player k.
                   if k = actor
                   then player\<lparr>hand := filter (\<lambda>handCard. handCard \<noteq> a) (hand player),
                               playsOutOfSuit :=
                                 (if Trick.suit t \<noteq> None \<and> Trick.suit t \<noteq> Some (Card.suit a)
                                  then mapIdx (\<lambda>b s. if Some s = Trick.suit t then True else b)
                                         (playsOutOfSuit player)
                                  else playsOutOfSuit player)\<rparr>
                   else player) (players st),
             trick :=
               \<lparr>Trick.suit = (if Trick.suit t = None then Some (Card.suit a) else Trick.suit t),
                cards = cards t @ [a]\<rparr>,
             heartsBroken := heartsBroken st \<or> cardPoints a (simplified st) \<noteq> 0\<rparr>,
          rec'))"

text \<open>
  The selection of the play among the policy's candidates (the \<^verbatim>\<open>reduce\<close> of lines
  176 to 186): the first candidate of strictly highest quality.
\<close>

definition selectPlay :: "'f ActionSummary list \<Rightarrow> 'f ActionSummary option" where
  "selectPlay summaries =
     foldl (\<lambda>selection summary.
              case selection of
                None \<Rightarrow> Some summary
              | Some sel \<Rightarrow>
                  if ActionSummary.quality summary > ActionSummary.quality sel
                  then Some summary else selection)
           None summaries"

text \<open>
  The body of the loop of \<^verbatim>\<open>playRound\<close> (lines 172 to 193), for the loop variable
  \<open>i\<close>. Reading the hand of a player that does not exist is a \<^verbatim>\<open>TypeError\<close> in
  JavaScript.
\<close>

definition playTurn ::
  "(nat \<Rightarrow> 'f Policy) \<Rightarrow> nat \<Rightarrow> State \<times> 'f Recorders \<Rightarrow> 'f Outcome" where
  "playTurn policies i sr =
     (case sr of (st, rec) \<Rightarrow>
        (let seat = (trickLeader st + i) mod 4
         in if length (players st) \<le> seat then Inl (UndefinedPlayer, rec)
            else
              (let player = players st ! seat;
                   plays = validPlays st (hand player);
                   rec1 = rec(seat := rec seat @ [PolicyCall st plays])
               in case selectPlay (policies seat st player plays) of
                    Some play \<Rightarrow> Inr (playCard st rec1 seat play)
                  | None \<Rightarrow> Inl (NoPlayDetermined, rec1))))"

fun playTurns ::
  "(nat \<Rightarrow> 'f Policy) \<Rightarrow> nat list \<Rightarrow> State \<times> 'f Recorders \<Rightarrow> 'f Outcome" where
  "playTurns policies [] sr = Inr sr"
| "playTurns policies (i # is) sr =
     (case playTurn policies i sr of
        Inl e \<Rightarrow> Inl e
      | Inr sr' \<Rightarrow> playTurns policies is sr')"

text \<open>
  The reward a seat is assigned when a trick is resolved (lines 220 to 228), and the
  calls of \<^verbatim>\<open>assignReward\<close> on the players in seat order.
\<close>

definition trickReward :: "int \<Rightarrow> bool \<Rightarrow> nat \<Rightarrow> nat \<Rightarrow> real" where
  "trickReward points simpl winningSeat k =
     (if points \<noteq> 0 \<and> k = winningSeat then - real_of_int points
      else (if simpl then 0.25 else 0.5))"

definition assignRewards :: "int \<Rightarrow> bool \<Rightarrow> nat \<Rightarrow> nat \<Rightarrow> 'f Recorders \<Rightarrow> 'f Recorders" where
  "assignRewards points simpl winningSeat n rec =
     foldl (\<lambda>r k. r(k := r k @ [AssignReward (trickReward points simpl winningSeat k)]))
       rec [0..<n]"

text \<open>The resolution of the trick, the second half of \<^verbatim>\<open>playRound\<close> (lines 195 to 247).\<close>

definition resolveTrick :: "State \<times> 'f Recorders \<Rightarrow> 'f Outcome" where
  "resolveTrick sr =
     (case sr of (st, rec) \<Rightarrow>
        (let cs = cards (trick st);
             ps = players st;
             leader = trickLeader st;
             simpl = simplified st;
             points = trickPoints (trick st) (simplified st)
         in case trickWinner (trick st) of
              None \<Rightarrow> Inl (NoTrickWinner, rec)
            | Some c \<Rightarrow>
                (case indexOf cs c of
                   None \<Rightarrow> Inl (WinningCardNotFound, rec)
                 | Some cardIndex \<Rightarrow>
                     (let winningSeat = (cardIndex + leader) mod 4
                      in if length ps \<le> winningSeat then Inl (NoWinningPlayer, rec)
                         else Inr
                           (st\<lparr>trickLeader := winningSeat,
                               trick := \<lparr>Trick.suit = None, cards = []\<rparr>,
                               players :=
                                 mapIdx (\<lambda>player k.
                                     if points \<noteq> 0 \<and> k = winningSeat
                                     then player\<lparr>Player.score := Player.score player + points\<rparr>
                                     else player) ps\<rparr>,
                            assignRewards points simpl winningSeat (length ps) rec)))))"

text \<open>State reducer for an entire round of gameplay (\<^verbatim>\<open>playRound\<close>).\<close>

definition playRound ::
  "(nat \<Rightarrow> 'f Policy) \<Rightarrow> State \<times> 'f Recorders \<Rightarrow> 'f Outcome" where
  "playRound policies start =
     (case playTurns policies (range_list 4) start of
        Inl e \<Rightarrow> Inl e
      | Inr sr \<Rightarrow> resolveTrick sr)"

section \<open>Game driver\<close>

fun playRounds ::
  "(nat \<Rightarrow> 'f Policy) \<Rightarrow> nat list \<Rightarrow> State \<times> 'f Recorders \<Rightarrow> 'f Outcome" where
  "playRounds policies [] sr = Inr sr"
| "playRounds policies (i # is) sr =
     (case playRound policies sr of
        Inl e \<Rightarrow> Inl e
      | Inr sr' \<Rightarrow> playRounds policies is sr')"

text \<open>The deal: the four players, seat \<open>k\<close> holding cards \<open>13 k\<close> to \<open>13 k + 12\<close> of the deck.\<close>

definition deal :: "Card list \<Rightarrow> Player list" where
  "deal deck = map (\<lambda>seat. createPlayer (slice deck (seat * 13) ((1 + seat) * 13))) [0..<4]"

text \<open>
  The state in which \<^verbatim>\<open>playGame\<close> enters its loop (lines 256 to 285), or the error it
  throws before.
\<close>

definition initialState :: "bool \<Rightarrow> (nat \<Rightarrow> real) \<Rightarrow> error + State" where
  "initialState simpl random =
     (case shuffleDeck freshDeck random of
        None \<Rightarrow> Inl DeckIndexOutOfRange
      | Some deck \<Rightarrow>
          (let ps = deal deck
           in case playerWithCard ps suits_clubs 2 of
                None \<Rightarrow> Inl TwoOfClubsNotDealt
              | Some startingPlayer \<Rightarrow>
                  (case indexOf ps startingPlayer of
                     None \<Rightarrow> Inl NoPlayerMatched
                   | Some startingSeat \<Rightarrow>
                       Inr \<lparr>players = ps,
                            trick = \<lparr>Trick.suit = None, cards = []\<rparr>,
                            heartsBroken = False,
                            simplified = simpl,
                            trickLeader = startingSeat\<rparr>)))"

text \<open>
  \<^verbatim>\<open>playGame\<close> returns what \<^verbatim>\<open>terminate\<close> makes of each player's recorder; the model
  returns the final state and, for each seat, the calls made on its player. No call
  has been made on a player when the game fails before its first round.
\<close>

definition playGame ::
  "(nat \<Rightarrow> 'f Policy) \<Rightarrow> bool \<Rightarrow> (nat \<Rightarrow> real) \<Rightarrow> 'f Outcome" where
  "playGame policies simpl random =
     (case initialState simpl random of
        Inl e \<Rightarrow> Inl (e, \<lambda>seat. [])
      | Inr st \<Rightarrow> playRounds policies (range_list 13) (st, \<lambda>seat. []))"

section \<open>History interpreter\<close>

text \<open>
  Modelled from the spec: the type \<^verbatim>\<open>History\<close> of \<^verbatim>\<open>src/simulator/index.ts\<close> is not
  part of the sources at hand. An entry is either terminal, with a reward and the
  actor, or the record of one action.
\<close>

record 'f HistoryEntry =
  state :: State
  actor :: Player
  action :: Card
  quality :: real
  reward :: real
  trace :: 'f

datatype 'f History =
    Terminal real Player
  | NonTerminal "'f HistoryEntry"

record 'f FeedBack =
  actual :: real
  expected :: real
  reward :: real
  trace :: 'f
  state :: State
  actor :: Player
  action :: Card

record 'f Interpretation =
  reward :: real
  feedBack :: "'f FeedBack list"
  score :: int

fun interpretHistory :: "'f History list \<Rightarrow> error + 'f Interpretation" where
  "interpretHistory [] = Inl EmptyHistory"
| "interpretHistory (Terminal r a # tail) =
     Inr \<lparr>Interpretation.reward = r, feedBack = [], Interpretation.score = Player.score a\<rparr>"
| "interpretHistory (NonTerminal head # tail) =
     (case interpretHistory tail of
        Inl e \<Rightarrow> Inl e
      | Inr rest \<Rightarrow>
          Inr (rest\<lparr>feedBack := feedBack rest @
                       [\<lparr>actual = Interpretation.reward rest,
                         expected = HistoryEntry.quality head,
                         FeedBack.reward = HistoryEntry.reward head,
                         FeedBack.trace = HistoryEntry.trace head,
                         FeedBack.state = HistoryEntry.state head,
                         FeedBack.actor = HistoryEntry.actor head,
                         FeedBack.action = HistoryEntry.action head\<rparr>],
                    Interpretation.reward :=
                      Interpretation.reward rest + HistoryEntry.reward head\<rparr>))"

section \<open>Notions used in the statements\<close>

text \<open>
  A trick as \<open>playCard\<close> builds it from the empty trick: it has no suit while it is
  empty, and the suit of its first card afterwards.
\<close>

definition trickBuilt :: "Trick \<Rightarrow> bool" where
  "trickBuilt t =
     (case cards t of
        [] \<Rightarrow> Trick.suit t = None
      | c # cs \<Rightarrow> Trick.suit t = Some (Card.suit c))"

text \<open>The feedback record of an entry, given the return that followed it.\<close>

definition feedBackOf :: "'f HistoryEntry \<Rightarrow> real \<Rightarrow> 'f FeedBack" where
  "feedBackOf e ret =
     \<lparr>actual = ret, expected = HistoryEntry.quality e, FeedBack.reward = HistoryEntry.reward e,
      FeedBack.trace = HistoryEntry.trace e, FeedBack.state = HistoryEntry.state e,
      FeedBack.actor = HistoryEntry.actor e, FeedBack.action = HistoryEntry.action e\<rparr>"

text \<open>
  The terminal reward \<open>r\<close> plus the rewards of the entries that come after entry
  number \<open>i\<close>.
\<close>

definition rewardsAfter :: "real \<Rightarrow> 'f HistoryEntry list \<Rightarrow> nat \<Rightarrow> real" where
  "rewardsAfter r es i = r + sum_list (map HistoryEntry.reward (drop (Suc i) es))"

subsection \<open>Contracts and invariants of a game\<close>

text \<open>
  The contract of a random source such as \<^verbatim>\<open>Math.random\<close>: every value it returns lies
  in \<open>[0, 1)\<close>.
\<close>

definition inUnitInterval :: "(nat \<Rightarrow> real) \<Rightarrow> bool" where
  "inUnitInterval random = (\<forall>i. 0 \<le> random i \<and> random i < 1)"

definition twoOfClubs :: Card where
  "twoOfClubs = \<lparr>Card.suit = suits_clubs, rank = 2\<rparr>"

text \<open>
  A policy that always chooses among the offered plays: every candidate it returns is
  for one of the offered cards, and it returns a candidate whenever a card is offered.
\<close>

definition choosesOffered :: "'f Policy \<Rightarrow> bool" where
  "choosesOffered policy =
     (\<forall>st p plays.
        (\<forall>s\<in>set (policy st p plays). ActionSummary.action s \<in> set plays) \<and>
        (plays \<noteq> [] \<longrightarrow> policy st p plays \<noteq> []))"

text \<open>The sum of the players' scores, and the points of the cards still in the hands.\<close>

definition totalScore :: "State \<Rightarrow> int" where
  "totalScore st = sum_list (map Player.score (players st))"

definition pointsOf :: "bool \<Rightarrow> Card list \<Rightarrow> int" where
  "pointsOf simpl cs = sum_list (map (\<lambda>c. cardPoints c simpl) cs)"

definition handPoints :: "State \<Rightarrow> int" where
  "handPoints st = sum_list (map (\<lambda>p. pointsOf (simplified st) (hand p)) (players st))"

text \<open>
  Seat \<open>k\<close> is among the first \<open>m\<close> seats to play in a trick led by seat \<open>L\<close>.
\<close>

definition played :: "nat \<Rightarrow> nat \<Rightarrow> nat \<Rightarrow> bool" where
  "played L m k = (\<exists>j<m. k = (L + j) mod 4)"

text \<open>
  The state after \<open>m\<close> plays of a round that started with hands of \<open>n + 1\<close> cards:
  the seats that played hold \<open>n\<close> cards, the trick holds \<open>m\<close> cards, and the scores,
  the points in the hands and the points in the trick add up to \<open>T\<close>.
\<close>

definition midInv :: "nat \<Rightarrow> nat \<Rightarrow> int \<Rightarrow> bool \<Rightarrow> nat \<Rightarrow> State \<Rightarrow> bool" where
  "midInv L n T simpl m st =
     (length (players st) = 4 \<and> trickLeader st = L \<and> simplified st = simpl \<and>
      (\<forall>k<4. distinct (hand (players st ! k)) \<and>
              length (hand (players st ! k)) = (if played L m k then n else Suc n)) \<and>
      trickBuilt (trick st) \<and> length (cards (trick st)) = m \<and>
      totalScore st + handPoints st + trickPoints (trick st) simpl = T)"

text \<open>
  The state between two rounds: four hands of \<open>n\<close> distinct cards each, an empty
  trick, and scores and points in the hands that add up to \<open>T\<close>.
\<close>

definition roundInv :: "nat \<Rightarrow> int \<Rightarrow> bool \<Rightarrow> State \<Rightarrow> bool" where
  "roundInv n T simpl st =
     (length (players st) = 4 \<and> simplified st = simpl \<and>
      (\<forall>k<4. distinct (hand (players st ! k)) \<and> length (hand (players st ! k)) = n) \<and>
      trick st = \<lparr>Trick.suit = None, cards = []\<rparr> \<and>
      totalScore st + handPoints st = T)"

text \<open>
  The calls made on the player of seat \<open>k\<close> in one turn (the policy is asked with
  the legal plays of the seat's hand, and the action recorded is one of them), and in
  one round (the same, followed by the reward of the trick).
\<close>

definition legalPlay :: "nat \<Rightarrow> 'f Call list \<Rightarrow> bool" where
  "legalPlay k cs =
     (\<exists>st a q t. cs = [PolicyCall st (validPlays st (hand (players st ! k))),
                       RecordAction st a q t] \<and>
                 a \<in> set (validPlays st (hand (players st ! k))))"

definition legalTurn :: "nat \<Rightarrow> 'f Call list \<Rightarrow> bool" where
  "legalTurn k cs =
     (\<exists>st a q t r. cs = [PolicyCall st (validPlays st (hand (players st ! k))),
                         RecordAction st a q t, AssignReward r] \<and>
                   a \<in> set (validPlays st (hand (players st ! k))))"

text \<open>The recorders after \<open>m\<close> plays of a round that started with recorders \<open>rec0\<close>.\<close>

definition midRec :: "nat \<Rightarrow> nat \<Rightarrow> 'f Recorders \<Rightarrow> 'f Recorders \<Rightarrow> bool" where
  "midRec L m rec0 rec =
     (\<forall>k<4. if played L m k then (\<exists>cs. rec k = rec0 k @ cs \<and> legalPlay k cs)
             else rec k = rec0 k)"

fun isRecordAction :: "'f Call \<Rightarrow> bool" where
  "isRecordAction (RecordAction st a q t) = True"
| "isRecordAction c = False"

fun isAssignReward :: "'f Call \<Rightarrow> bool" where
  "isAssignReward (AssignReward r) = True"
| "isAssignReward c = False"

definition legalCalls :: "nat \<Rightarrow> 'f Call list \<Rightarrow> bool" where
  "legalCalls k cs =
     ((\<forall>st plays. PolicyCall st plays \<in> set cs \<longrightarrow>
         plays = validPlays st (hand (players st ! k))) \<and>
      (\<forall>st a q t. RecordAction st a q t \<in> set cs \<longrightarrow>
         a \<in> set (validPlays st (hand (players st ! k)))))"







subsection \<open>Example values\<close>

text \<open>A policy that offers every legal play with the same quality.\<close>

definition offerAll :: "unit Policy" where
  "offerAll st p plays =
     map (\<lambda>c. \<lparr>ActionSummary.action = c, quality = 0, trace = ()\<rparr>) plays"

definition twoH :: Card where "twoH = \<lparr>Card.suit = suits_hearts, rank = 2\<rparr>"
definition fiveH :: Card where "fiveH = \<lparr>Card.suit = suits_hearts, rank = 5\<rparr>"
definition kingC :: Card where "kingC = \<lparr>Card.suit = suits_clubs, rank = 13\<rparr>"
definition aceH :: Card where "aceH = \<lparr>Card.suit = suits_hearts, rank = 14\<rparr>"

text \<open>The last trick of a game, before and after its four plays.\<close>

definition lastTrickState :: State where
  "lastTrickState =
     \<lparr>players = [createPlayer [twoH], createPlayer [fiveH], createPlayer [kingC],
                 createPlayer [aceH]],
      trick = \<lparr>Trick.suit = None, cards = []\<rparr>,
      heartsBroken = True, simplified = False, trickLeader = 0\<rparr>"

definition playedTrickState :: State where
  "playedTrickState =
     \<lparr>players = [createPlayer [], createPlayer [], createPlayer [], createPlayer []],
      trick = \<lparr>Trick.suit = Some suits_hearts, cards = [twoH, fiveH, kingC, aceH]\<rparr>,
      heartsBroken = True, simplified = False, trickLeader = 0\<rparr>"

text \<open>A card can win when it matches the trick suit, or when the trick has no suit.\<close>

definition eligible :: "nat option \<Rightarrow> Card \<Rightarrow> bool" where
  "eligible s c = (Some (Card.suit c) = s \<or> s = None)"

section \<open>Properties of the rules engine\<close>

lemma hasSuit_foldl:
  "foldl (\<lambda>h c. h \<or> P c) b xs = (b \<or> (\<exists>c\<in>set xs. P c))"
  by (induction xs arbitrary: b) auto

lemma trickPoints_sum:
  "foldl (\<lambda>total c. total + cardPoints c simpl) z cs =
     z + sum_list (map (\<lambda>c. cardPoints c simpl) cs)"
  by (induction cs arbitrary: z) auto

lemma trickWinner_snoc:
  "trickWinner \<lparr>Trick.suit = s, cards = cs @ [c]\<rparr> =
     (if (Some (Card.suit c) = s \<or> s = None) \<and>
         (case trickWinner \<lparr>Trick.suit = s, cards = cs\<rparr> of
            None \<Rightarrow> True | Some w \<Rightarrow> rank c > rank w)
      then Some c else trickWinner \<lparr>Trick.suit = s, cards = cs\<rparr>)"
  by (simp add: trickWinner_def)

lemma trickWinner_nil: "trickWinner \<lparr>Trick.suit = s, cards = []\<rparr> = None"
  by (simp add: trickWinner_def)

lemma trickWinner_char:
  "(case trickWinner \<lparr>Trick.suit = s, cards = cs\<rparr> of
      None \<Rightarrow> \<forall>c\<in>set cs. \<not> eligible s c
    | Some w \<Rightarrow> w \<in> set cs \<and> eligible s w \<and>
                (\<forall>c\<in>set cs. eligible s c \<longrightarrow> rank c \<le> rank w))"
proof (induction cs rule: rev_induct)
  case Nil
  show ?case by (simp add: trickWinner_nil)
next
  case (snoc c cs)
  show ?case
  proof (cases "trickWinner \<lparr>Trick.suit = s, cards = cs\<rparr>")
    case None
    with snoc show ?thesis
      by (auto simp: trickWinner_snoc eligible_def)
  next
    case (Some w)
    with snoc show ?thesis
      by (auto simp: trickWinner_snoc eligible_def)
  qed
qed

lemma trickWinner_char_trick:
  "(case trickWinner t of
      None \<Rightarrow> \<forall>c\<in>set (cards t). \<not> eligible (Trick.suit t) c
    | Some w \<Rightarrow> w \<in> set (cards t) \<and> eligible (Trick.suit t) w \<and>
                (\<forall>c\<in>set (cards t). eligible (Trick.suit t) c \<longrightarrow> rank c \<le> rank w))"
  using trickWinner_char [where s = "Trick.suit t" and cs = "cards t"]
  by (simp add: trickWinner_def)

text \<open>
  Claim C1. For every hand and state: when the trick has an established suit and the
  hand holds a card of that suit, \<open>validPlays\<close> returns exactly the hand's cards of
  that suit; when the trick has an established suit and the hand holds none of it,
  \<open>validPlays\<close> returns the whole hand; when the trick is empty (no suit is
  established) and the mode is simplified or hearts are broken, it returns the whole
  hand; and when the trick is empty, hearts are not broken and the mode is not
  simplified, it returns exactly the hand's cards worth zero points, unless there is
  none, in which case it returns the whole hand.
\<close>

theorem validPlays_cases:
  "(Trick.suit (trick st) = Some s \<and> (\<exists>c\<in>set hnd. Card.suit c = s) \<longrightarrow>
      validPlays st hnd = filter (\<lambda>c. Card.suit c = s) hnd) \<and>
   (Trick.suit (trick st) = Some s \<and> \<not> (\<exists>c\<in>set hnd. Card.suit c = s) \<longrightarrow>
      validPlays st hnd = hnd) \<and>
   (Trick.suit (trick st) = None \<and> (simplified st \<or> heartsBroken st) \<longrightarrow>
      validPlays st hnd = hnd) \<and>
   (Trick.suit (trick st) = None \<and> \<not> heartsBroken st \<and> \<not> simplified st \<longrightarrow>
      validPlays st hnd =
        (if \<exists>c\<in>set hnd. cardPoints c False = 0
         then filter (\<lambda>c. cardPoints c False = 0) hnd else hnd))"
  by (auto simp: validPlays_def hasSuit_foldl filter_empty_conv)

theorem validPlays_cases_witness:
  "validPlays \<lparr>players = [],
                trick = \<lparr>Trick.suit = Some suits_hearts, cards = [\<lparr>Card.suit = suits_hearts, rank = 2\<rparr>]\<rparr>,
                heartsBroken = False, simplified = False, trickLeader = 0\<rparr>
     [\<lparr>Card.suit = suits_hearts, rank = 5\<rparr>, \<lparr>Card.suit = suits_clubs, rank = 13\<rparr>] =
       [\<lparr>Card.suit = suits_hearts, rank = 5\<rparr>] \<and>
   validPlays \<lparr>players = [],
                trick = \<lparr>Trick.suit = Some suits_hearts, cards = [\<lparr>Card.suit = suits_hearts, rank = 2\<rparr>]\<rparr>,
                heartsBroken = False, simplified = False, trickLeader = 0\<rparr>
     [\<lparr>Card.suit = suits_spades, rank = 12\<rparr>, \<lparr>Card.suit = suits_clubs, rank = 13\<rparr>] =
       [\<lparr>Card.suit = suits_spades, rank = 12\<rparr>, \<lparr>Card.suit = suits_clubs, rank = 13\<rparr>] \<and>
   validPlays \<lparr>players = [], trick = \<lparr>Trick.suit = None, cards = []\<rparr>,
                heartsBroken = True, simplified = False, trickLeader = 0\<rparr>
     [\<lparr>Card.suit = suits_hearts, rank = 5\<rparr>, \<lparr>Card.suit = suits_clubs, rank = 13\<rparr>] =
       [\<lparr>Card.suit = suits_hearts, rank = 5\<rparr>, \<lparr>Card.suit = suits_clubs, rank = 13\<rparr>] \<and>
   validPlays \<lparr>players = [], trick = \<lparr>Trick.suit = None, cards = []\<rparr>,
                heartsBroken = False, simplified = False, trickLeader = 0\<rparr>
     [\<lparr>Card.suit = suits_hearts, rank = 5\<rparr>, \<lparr>Card.suit = suits_spades, rank = 12\<rparr>,
      \<lparr>Card.suit = suits_clubs, rank = 13\<rparr>] =
       [\<lparr>Card.suit = suits_clubs, rank = 13\<rparr>]"
  using
    validPlays_cases [of "\<lparr>players = [],
                trick = \<lparr>Trick.suit = Some suits_hearts, cards = [\<lparr>Card.suit = suits_hearts, rank = 2\<rparr>]\<rparr>,
                heartsBroken = False, simplified = False, trickLeader = 0\<rparr>" suits_hearts
                "[\<lparr>Card.suit = suits_hearts, rank = 5\<rparr>, \<lparr>Card.suit = suits_clubs, rank = 13\<rparr>]"]
    validPlays_cases [of "\<lparr>players = [],
                trick = \<lparr>Trick.suit = Some suits_hearts, cards = [\<lparr>Card.suit = suits_hearts, rank = 2\<rparr>]\<rparr>,
                heartsBroken = False, simplified = False, trickLeader = 0\<rparr>" suits_hearts
                "[\<lparr>Card.suit = suits_spades, rank = 12\<rparr>, \<lparr>Card.suit = suits_clubs, rank = 13\<rparr>]"]
    validPlays_cases [of "\<lparr>players = [], trick = \<lparr>Trick.suit = None, cards = []\<rparr>,
                heartsBroken = True, simplified = False, trickLeader = 0\<rparr>" 0
                "[\<lparr>Card.suit = suits_hearts, rank = 5\<rparr>, \<lparr>Card.suit = suits_clubs, rank = 13\<rparr>]"]
    validPlays_cases [of "\<lparr>players = [], trick = \<lparr>Trick.suit = None, cards = []\<rparr>,
                heartsBroken = False, simplified = False, trickLeader = 0\<rparr>" 0
                "[\<lparr>Card.suit = suits_hearts, rank = 5\<rparr>, \<lparr>Card.suit = suits_spades, rank = 12\<rparr>,
                  \<lparr>Card.suit = suits_clubs, rank = 13\<rparr>]"]
  by (simp add: cardPoints_def suits_hearts_def suits_spades_def suits_clubs_def)

text \<open>
  Claim C2. For every trick with an established suit that holds at least one card of
  that suit, \<open>trickWinner\<close> returns a card of the trick that has the trick's suit and
  whose rank is the highest among the trick's cards of that suit; a card of another
  suit is never returned, whatever its rank.
\<close>

theorem trickWinner_highest_of_suit:
  assumes "Trick.suit t = Some s" and "\<exists>c\<in>set (cards t). Card.suit c = s"
  shows "\<exists>w. trickWinner t = Some w \<and> w \<in> set (cards t) \<and> Card.suit w = s \<and>
             (\<forall>c\<in>set (cards t). Card.suit c = s \<longrightarrow> rank c \<le> rank w)"
proof (cases "trickWinner t")
  case None
  with trickWinner_char_trick [of t] assms show ?thesis
    by (auto simp: eligible_def)
next
  case (Some w)
  with trickWinner_char_trick [of t] assms show ?thesis
    by (auto simp: eligible_def)
qed

theorem trickWinner_highest_of_suit_witness:
  "trickWinner \<lparr>Trick.suit = Some suits_hearts,
       cards = [\<lparr>Card.suit = suits_hearts, rank = 2\<rparr>, \<lparr>Card.suit = suits_hearts, rank = 5\<rparr>,
                \<lparr>Card.suit = suits_clubs, rank = 13\<rparr>, \<lparr>Card.suit = suits_hearts, rank = 14\<rparr>]\<rparr>
     = Some \<lparr>Card.suit = suits_hearts, rank = 14\<rparr>"
  using trickWinner_highest_of_suit [of "\<lparr>Trick.suit = Some suits_hearts,
       cards = [\<lparr>Card.suit = suits_hearts, rank = 2\<rparr>, \<lparr>Card.suit = suits_hearts, rank = 5\<rparr>,
                \<lparr>Card.suit = suits_clubs, rank = 13\<rparr>, \<lparr>Card.suit = suits_hearts, rank = 14\<rparr>]\<rparr>"
       suits_hearts]
  by (auto simp: suits_hearts_def suits_clubs_def)

section \<open>Properties of the state machine\<close>

lemmas ex_defs = offerAll_def twoH_def fiveH_def kingC_def aceH_def lastTrickState_def
  playedTrickState_def createPlayer_def suits_hearts_def suits_clubs_def suits_spades_def
  suits_diamonds_def

lemma upt4: "[0..<4] = [0, 1, 2, 3]"
  by (simp add: upt_rec)

lemmas eval_defs = playRound_def range_list_def upt4 playTurn_def validPlays_def selectPlay_def
  playCard_def resolveTrick_def trickWinner_def trickPoints_def cardPoints_def Let_def mapIdx_def

lemma mapIdx_length [simp]: "length (mapIdx f xs) = length xs"
  by (simp add: mapIdx_def)

lemma mapIdx_nth [simp]: "k < length xs \<Longrightarrow> mapIdx f xs ! k = f (xs ! k) k"
  by (simp add: mapIdx_def)

lemma mapIdx_flag:
  "mapIdx (\<lambda>b s'. if Some s' = Some s then True else b) flags = flags[s := True]"
  by (rule nth_equalityI) (auto simp: nth_list_update)

lemma mapIdx_flag': "mapIdx (\<lambda>b s'. s' \<noteq> s \<longrightarrow> b) flags = flags[s := True]"
proof (rule nth_equalityI)
  show "length (mapIdx (\<lambda>b s'. s' \<noteq> s \<longrightarrow> b) flags) = length (flags[s := True])"
    by simp
next
  fix i
  assume "i < length (mapIdx (\<lambda>b s'. s' \<noteq> s \<longrightarrow> b) flags)"
  then show "mapIdx (\<lambda>b s'. s' \<noteq> s \<longrightarrow> b) flags ! i = flags[s := True] ! i"
    by (cases "i = s") simp_all
qed

lemma filter_neq_removeAll: "filter (\<lambda>handCard. handCard \<noteq> a) xs = removeAll a xs"
  by (induction xs) auto

text \<open>
  Claim C7. For every play-a-card transition by a seat of the state (whether or not
  the played card is in the actor's hand): the actor's new hand is the old hand with
  the played card removed; when the trick has an established suit that differs from
  the card's suit, the actor's flag for the established suit is set, and otherwise
  the flags are unchanged, so that no flag is ever cleared; the card is appended to
  the trick, whose suit becomes the card's suit if it had none; the other players,
  every player's score, the trick leader and the mode are unchanged.
\<close>

theorem playCard_frame:
  assumes "seat < length (players st)"
  shows "let st' = fst (playCard st rec seat summ);
             a = ActionSummary.action summ;
             flags = playsOutOfSuit (players st ! seat);
             flags' = playsOutOfSuit (players st' ! seat)
         in length (players st') = length (players st) \<and>
            hand (players st' ! seat) = removeAll a (hand (players st ! seat)) \<and>
            flags' = (case Trick.suit (trick st) of
                        None \<Rightarrow> flags
                      | Some s \<Rightarrow> if s \<noteq> Card.suit a then flags[s := True] else flags) \<and>
            length flags' = length flags \<and>
            (\<forall>s<length flags. flags ! s \<longrightarrow> flags' ! s) \<and>
            cards (trick st') = cards (trick st) @ [a] \<and>
            Trick.suit (trick st') =
              (case Trick.suit (trick st) of None \<Rightarrow> Some (Card.suit a) | Some s \<Rightarrow> Some s) \<and>
            (\<forall>k<length (players st). k \<noteq> seat \<longrightarrow> players st' ! k = players st ! k) \<and>
            (\<forall>k<length (players st).
               Player.score (players st' ! k) = Player.score (players st ! k)) \<and>
            trickLeader st' = trickLeader st \<and>
            simplified st' = simplified st"
  using assms
  by (auto simp: playCard_def Let_def filter_neq_removeAll mapIdx_flag mapIdx_flag'
           nth_list_update split: option.splits)

theorem playCard_frame_witness:
  "hand (players (fst (playCard lastTrickState (\<lambda>_. []) 2
       \<lparr>ActionSummary.action = kingC, quality = 0, trace = ()\<rparr>)) ! 2) = [] \<and>
   players (fst (playCard lastTrickState (\<lambda>_. []) 2
       \<lparr>ActionSummary.action = kingC, quality = 0, trace = ()\<rparr>)) ! 3 = createPlayer [aceH]"
  using playCard_frame [of 2 lastTrickState "\<lambda>_. []"
      "\<lparr>ActionSummary.action = kingC, quality = 0, trace = ()\<rparr>"]
  by (simp add: ex_defs Let_def)

lemma assignRewards_apply:
  "assignRewards points simpl w n rec k =
     (if k < n then rec k @ [AssignReward (trickReward points simpl w k)] else rec k)"
  by (induction n) (auto simp: assignRewards_def)

text \<open>
  Claim C3. When a trick is resolved, each of the four seats is assigned exactly one
  reward: if the trick's points are not zero, the winning seat (the new trick leader)
  is assigned minus the trick's points and every other seat 0.5, or 0.25 in simplified
  mode; if the trick's points are zero, every seat, the winner included, is assigned
  that bonus.
\<close>

theorem resolveTrick_rewards:
  assumes "resolveTrick (st, rec) = Inr (st', rec')" and "length (players st) = 4"
  shows "(\<forall>k<4. rec' k = rec k @
           [AssignReward
              (if trickPoints (trick st) (simplified st) \<noteq> 0 \<and> k = trickLeader st'
               then - real_of_int (trickPoints (trick st) (simplified st))
               else if simplified st then 0.25 else 0.5)]) \<and>
         (\<exists>c i. trickWinner (trick st) = Some c \<and> indexOf (cards (trick st)) c = Some i \<and>
               trickLeader st' = (i + trickLeader st) mod 4)"
  using assms
  by (auto simp: resolveTrick_def Let_def assignRewards_apply trickReward_def
           split: option.splits if_splits)

theorem resolveTrick_rewards_witness:
  "\<exists>st' rec'.
      resolveTrick (playedTrickState, (\<lambda>_. []) :: unit Recorders) = Inr (st', rec') \<and>
      trickLeader st' = 3 \<and>
      rec' 0 = [AssignReward 0.5] \<and> rec' 1 = [AssignReward 0.5] \<and>
      rec' 2 = [AssignReward 0.5] \<and> rec' 3 = [AssignReward (- 3)]"
proof -
  obtain st' rec' where
    r: "resolveTrick (playedTrickState, \<lambda>_. []) = Inr (st', (rec' :: unit Recorders))" and
    l: "trickLeader st' = 3"
    by (simp add: eval_defs ex_defs)
  have len: "length (players playedTrickState) = 4"
    by (simp add: ex_defs)
  have tp: "trickPoints (trick playedTrickState) (simplified playedTrickState) = 3"
    by (simp add: eval_defs ex_defs)
  have ns: "\<not> simplified playedTrickState"
    by (simp add: ex_defs)
  have a: "\<forall>k<4. rec' k = [AssignReward (if k = 3 then - 3 else 0.5)]"
    using resolveTrick_rewards [OF r len] l tp ns by simp
  have "rec' 0 = [AssignReward 0.5]" "rec' 1 = [AssignReward 0.5]"
       "rec' 2 = [AssignReward 0.5]" "rec' 3 = [AssignReward (- 3)]"
    using a by simp_all
  with r l show ?thesis by blast
qed

lemma playCard_heartsBroken:
  "heartsBroken (fst (playCard st rec seat summ)) =
     (heartsBroken st \<or> cardPoints (ActionSummary.action summ) (simplified st) \<noteq> 0)"
  by (simp add: playCard_def Let_def)

lemma playCard_fst_rec: "fst (playCard st r1 seat p) = fst (playCard st r2 seat p)"
  by (simp add: playCard_def Let_def)

text \<open>What a successful turn is: the selected candidate, played on the state.\<close>

lemma playTurn_Inr:
  assumes "playTurn policies i (st, rec) = Inr (st', rec')"
  shows "\<exists>play. (trickLeader st + i) mod 4 < length (players st) \<and>
           selectPlay (policies ((trickLeader st + i) mod 4) st
               (players st ! ((trickLeader st + i) mod 4))
               (validPlays st (hand (players st ! ((trickLeader st + i) mod 4))))) = Some play \<and>
           st' = fst (playCard st rec ((trickLeader st + i) mod 4) play) \<and>
           rec' = snd (playCard st
                    (rec((trickLeader st + i) mod 4 := rec ((trickLeader st + i) mod 4) @
                       [PolicyCall st
                          (validPlays st (hand (players st ! ((trickLeader st + i) mod 4))))]))
                    ((trickLeader st + i) mod 4) play)"
proof -
  let ?seat = "(trickLeader st + i) mod 4"
  let ?plays = "validPlays st (hand (players st ! ?seat))"
  let ?rec1 = "rec(?seat := rec ?seat @ [PolicyCall st ?plays])"
  from assms obtain play where
    l: "?seat < length (players st)" and
    s: "selectPlay (policies ?seat st (players st ! ?seat) ?plays) = Some play" and
    p: "playCard st ?rec1 ?seat play = (st', rec')"
    by (auto simp: playTurn_def Let_def split: if_splits option.splits)
  from p have "st' = fst (playCard st ?rec1 ?seat play)" "rec' = snd (playCard st ?rec1 ?seat play)"
    by simp_all
  with l s playCard_fst_rec [of st ?rec1 ?seat play rec] show ?thesis
    by auto
qed

lemma playTurn_heartsBroken:
  "playTurn policies i (st, rec) = Inr (st', rec') \<Longrightarrow> heartsBroken st \<Longrightarrow> heartsBroken st'"
  by (auto simp: playCard_heartsBroken dest!: playTurn_Inr)

lemma playTurns_heartsBroken:
  "playTurns policies is (st, rec) = Inr (st', rec') \<Longrightarrow> heartsBroken st \<Longrightarrow> heartsBroken st'"
proof (induction "is" arbitrary: st rec)
  case Nil
  then show ?case by simp
next
  case (Cons i "is")
  then show ?case
    by (auto split: sum.splits dest: playTurn_heartsBroken)
qed

lemma resolveTrick_heartsBroken:
  "resolveTrick (st, rec) = Inr (st', rec') \<Longrightarrow> heartsBroken st' = heartsBroken st"
  by (auto simp: resolveTrick_def Let_def split: option.splits if_splits)

lemma playRound_heartsBroken:
  "playRound policies (st, rec) = Inr (st', rec') \<Longrightarrow> heartsBroken st \<Longrightarrow> heartsBroken st'"
  by (auto simp: playRound_def split: sum.splits
           dest!: playTurns_heartsBroken resolveTrick_heartsBroken)

text \<open>
  Claim C6. The flag \<open>heartsBroken\<close> is one-way: after a card is played it is true
  exactly when it was true before or the played card carries points; resolving a
  trick leaves it as it is; and a whole round that starts with the flag set ends with
  the flag set.
\<close>

theorem heartsBroken_one_way:
  "heartsBroken (fst (playCard st rec seat summ)) =
     (heartsBroken st \<or> cardPoints (ActionSummary.action summ) (simplified st) \<noteq> 0) \<and>
   (\<forall>st' rec'. resolveTrick (st, rec) = Inr (st', rec') \<longrightarrow> heartsBroken st' = heartsBroken st) \<and>
   (\<forall>st' rec'. playRound policies (st, rec) = Inr (st', rec') \<and> heartsBroken st \<longrightarrow>
      heartsBroken st')"
  using playCard_heartsBroken resolveTrick_heartsBroken playRound_heartsBroken by blast

theorem heartsBroken_one_way_witness:
  "\<exists>st1 rec1 st2 rec2.
     resolveTrick (playedTrickState, (\<lambda>_. []) :: unit Recorders) = Inr (st1, rec1) \<and>
     heartsBroken st1 \<and>
     playRound (\<lambda>_. offerAll) (lastTrickState, \<lambda>_. []) = Inr (st2, rec2) \<and>
     heartsBroken lastTrickState \<and> heartsBroken st2"
proof -
  obtain st1 rec1 where r1:
    "resolveTrick (playedTrickState, (\<lambda>_. []) :: unit Recorders) = Inr (st1, rec1)"
    by (simp add: eval_defs ex_defs)
  obtain st2 rec2 where r2:
    "playRound (\<lambda>_. offerAll) (lastTrickState, \<lambda>_. []) = Inr (st2, rec2)"
    by (simp add: eval_defs ex_defs)
  have h1: "heartsBroken playedTrickState" and h2: "heartsBroken lastTrickState"
    by (simp_all add: ex_defs)
  from heartsBroken_one_way [of playedTrickState "\<lambda>_. []" 0 undefined "\<lambda>_. offerAll"] r1 h1
  have a: "heartsBroken st1" by blast
  from heartsBroken_one_way [of lastTrickState "\<lambda>_. []" 0 undefined "\<lambda>_. offerAll"] r2 h2
  have b: "heartsBroken st2" by blast
  from r1 r2 a b h2 show ?thesis by blast
qed

lemma playCard_trickBuilt:
  "trickBuilt (trick st) \<Longrightarrow> trickBuilt (trick (fst (playCard st rec seat summ)))"
  by (auto simp: trickBuilt_def playCard_def Let_def split: list.splits)

lemma playCard_cards:
  "cards (trick (fst (playCard st rec seat summ))) = cards (trick st) @ [ActionSummary.action summ]"
  by (simp add: playCard_def Let_def)

lemma playTurn_trick:
  "playTurn policies i (st, rec) = Inr (st', rec') \<Longrightarrow> trickBuilt (trick st) \<Longrightarrow>
     trickBuilt (trick st') \<and> length (cards (trick st')) = Suc (length (cards (trick st)))"
  by (auto simp: playCard_cards playCard_trickBuilt dest!: playTurn_Inr)

lemma playTurns_trick:
  "playTurns policies is (st, rec) = Inr (st', rec') \<Longrightarrow> trickBuilt (trick st) \<Longrightarrow>
     trickBuilt (trick st') \<and> length (cards (trick st')) = length is + length (cards (trick st))"
proof (induction "is" arbitrary: st rec)
  case Nil
  then show ?case by simp
next
  case (Cons i "is")
  from Cons.prems obtain st1 rec1 where
    t: "playTurn policies i (st, rec) = Inr (st1, rec1)" and
    r: "playTurns policies is (st1, rec1) = Inr (st', rec')"
    by (auto split: sum.splits)
  from playTurn_trick [OF t Cons.prems(2)] Cons.IH [OF r] show ?case
    by simp
qed

lemma trickWinner_built:
  "trickBuilt t \<Longrightarrow> cards t \<noteq> [] \<Longrightarrow> trickWinner t \<noteq> None"
  using trickWinner_char_trick [of t]
  by (cases "cards t") (auto simp: trickBuilt_def eligible_def split: option.splits)

lemma playTurns_errors:
  "playTurns policies is sr = Inl (e, r) \<Longrightarrow> e = UndefinedPlayer \<or> e = NoPlayDetermined"
proof (induction "is" arbitrary: sr)
  case Nil
  then show ?case by simp
next
  case (Cons i "is")
  then show ?case
    by (cases sr) (auto simp: playTurn_def Let_def split: sum.splits if_splits option.splits)
qed

lemma playTurns_built:
  assumes "trick st = \<lparr>Trick.suit = None, cards = []\<rparr>" and "ixs \<noteq> []"
    and "playTurns policies ixs (st, rec) = Inr (st', rec')"
  shows "length (cards (trick st')) = length ixs \<and>
         Trick.suit (trick st') = Some (Card.suit (hd (cards (trick st'))))"
proof -
  from assms(1) have "trickBuilt (trick st)" by (simp add: trickBuilt_def)
  from playTurns_trick [OF assms(3) this] assms(1)
  have b: "trickBuilt (trick st')" "length (cards (trick st')) = length ixs" by simp_all
  with assms(2) have "cards (trick st') \<noteq> []" by auto
  with b show ?thesis
    by (cases "cards (trick st')") (simp_all add: trickBuilt_def)
qed

text \<open>
  Claim C9, as amended. \<open>trickWinner\<close> returns a card for every trick that holds a
  card of the trick's suit, or holds a card and has no suit; it returns no card for
  every other trick: the empty trick, and the trick none of whose cards has the
  trick's suit. \<open>playCard\<close> never builds a trick of the latter kind: the suit is that
  of the first card. Hence a round that starts from the empty trick never fails for
  want of a trick winner.
\<close>

theorem trickWinner_some:
  "((\<exists>c\<in>set (cards t). Trick.suit t = None \<or> Trick.suit t = Some (Card.suit c)) \<longrightarrow>
      trickWinner t \<noteq> None) \<and>
   (\<not> (\<exists>c\<in>set (cards t). Trick.suit t = None \<or> Trick.suit t = Some (Card.suit c)) \<longrightarrow>
      trickWinner t = None) \<and>
   (trickWinner t \<noteq> None \<longrightarrow> cards t \<noteq> []) \<and>
   (trick st = \<lparr>Trick.suit = None, cards = []\<rparr> \<and> ixs \<noteq> [] \<and>
    playTurns policies ixs (st, rec) = Inr (st', rec') \<longrightarrow>
      length (cards (trick st')) = length ixs \<and>
      Trick.suit (trick st') = Some (Card.suit (hd (cards (trick st'))))) \<and>
   (trick st = \<lparr>Trick.suit = None, cards = []\<rparr> \<longrightarrow>
      errorOf (playRound policies (st, rec)) \<noteq> Some NoTrickWinner)"
proof (intro conjI impI)
  assume "\<exists>c\<in>set (cards t). Trick.suit t = None \<or> Trick.suit t = Some (Card.suit c)"
  with trickWinner_char_trick [of t] show "trickWinner t \<noteq> None"
    by (auto simp: eligible_def split: option.splits)
next
  assume "\<not> (\<exists>c\<in>set (cards t). Trick.suit t = None \<or> Trick.suit t = Some (Card.suit c))"
  with trickWinner_char_trick [of t] show "trickWinner t = None"
    by (cases "trickWinner t") (auto simp: eligible_def)
next
  assume "trickWinner t \<noteq> None"
  with trickWinner_char_trick [of t] show "cards t \<noteq> []"
    by (auto split: option.splits)
next
  assume "trick st = \<lparr>Trick.suit = None, cards = []\<rparr> \<and> ixs \<noteq> [] \<and>
    playTurns policies ixs (st, rec) = Inr (st', rec')"
  then show "length (cards (trick st')) = length ixs"
    using playTurns_built [of st ixs policies rec st' rec'] by simp
next
  assume "trick st = \<lparr>Trick.suit = None, cards = []\<rparr> \<and> ixs \<noteq> [] \<and>
    playTurns policies ixs (st, rec) = Inr (st', rec')"
  then show "Trick.suit (trick st') = Some (Card.suit (hd (cards (trick st'))))"
    using playTurns_built [of st ixs policies rec st' rec'] by simp
next
  assume e: "trick st = \<lparr>Trick.suit = None, cards = []\<rparr>"
  then have b: "trickBuilt (trick st)" by (simp add: trickBuilt_def)
  show "errorOf (playRound policies (st, rec)) \<noteq> Some NoTrickWinner"
  proof (cases "playTurns policies (range_list 4) (st, rec)")
    case (Inl er)
    obtain err r where er: "er = (err, r)" by (cases er)
    with Inl have "err \<noteq> NoTrickWinner" by (auto dest: playTurns_errors)
    with Inl er show ?thesis by (simp add: playRound_def errorOf_def)
  next
    case (Inr sr)
    obtain st' rec' where sr: "sr = (st', rec')" by (cases sr)
    from playTurns_trick [OF Inr [unfolded sr] b]
    have "trickBuilt (trick st')" "cards (trick st') \<noteq> []"
      by (auto simp: range_list_def)
    then have "trickWinner (trick st') \<noteq> None" by (rule trickWinner_built)
    with Inr sr show ?thesis
      by (auto simp: playRound_def resolveTrick_def Let_def errorOf_def split: option.splits)
  qed
qed

theorem trickWinner_some_witness:
  "trickWinner \<lparr>Trick.suit = Some suits_clubs, cards = [aceH, kingC]\<rparr> \<noteq> None \<and>
   cards \<lparr>Trick.suit = Some suits_clubs, cards = [aceH, kingC]\<rparr> \<noteq> [] \<and>
   trickWinner \<lparr>Trick.suit = Some suits_clubs, cards = [aceH, twoH]\<rparr> = None \<and>
   trick lastTrickState = \<lparr>Trick.suit = None, cards = []\<rparr> \<and>
   (\<exists>st' rec'. playTurns (\<lambda>_. offerAll) [0, 1] (lastTrickState, \<lambda>_. []) = Inr (st', rec') \<and>
      length (cards (trick st')) = 2 \<and>
      Trick.suit (trick st') = Some (Card.suit (hd (cards (trick st'))))) \<and>
   errorOf (playRound (\<lambda>_. offerAll) (lastTrickState, \<lambda>_. [])) \<noteq> Some NoTrickWinner"
proof -
  obtain st' rec' where
    t: "playTurns (\<lambda>_. offerAll) [0, 1] (lastTrickState, \<lambda>_. []) = Inr (st', rec')"
    by (simp add: eval_defs ex_defs)
  have e: "trick lastTrickState = \<lparr>Trick.suit = None, cards = []\<rparr>"
    by (simp add: ex_defs)
  from trickWinner_some [of "\<lparr>Trick.suit = Some suits_clubs, cards = [aceH, kingC]\<rparr>"
      lastTrickState "[0, 1]" "\<lambda>_. offerAll" "\<lambda>_. []" st' rec'] t e
  have a: "trickWinner \<lparr>Trick.suit = Some suits_clubs, cards = [aceH, kingC]\<rparr> \<noteq> None"
    "length (cards (trick st')) = 2"
    "Trick.suit (trick st') = Some (Card.suit (hd (cards (trick st'))))"
    "errorOf (playRound (\<lambda>_. offerAll) (lastTrickState, \<lambda>_. [])) \<noteq> Some NoTrickWinner"
    by (simp_all add: kingC_def)
  from trickWinner_some [of "\<lparr>Trick.suit = Some suits_clubs, cards = [aceH, twoH]\<rparr>"
      lastTrickState "[0, 1]" "\<lambda>_. offerAll" "\<lambda>_. []" st' rec']
  have b: "trickWinner \<lparr>Trick.suit = Some suits_clubs, cards = [aceH, twoH]\<rparr> = None"
    by (simp add: ex_defs)
  from a b t e show ?thesis by auto
qed

text \<open>
  The claim as it is written fails: a trick whose suit is hearts and whose only card
  is the two of clubs is not empty and has no winner.
\<close>

theorem trickWinner_nonempty_counterexample:
  "cards \<lparr>Trick.suit = Some suits_hearts, cards = [\<lparr>Card.suit = suits_clubs, rank = 2\<rparr>]\<rparr> \<noteq> [] \<and>
   trickWinner \<lparr>Trick.suit = Some suits_hearts, cards = [\<lparr>Card.suit = suits_clubs, rank = 2\<rparr>]\<rparr> = None"
  by (simp add: trickWinner_def suits_hearts_def suits_clubs_def)

section \<open>Properties of the history interpreter\<close>

lemma rewardsAfter_Cons:
  "rewardsAfter r (e # es) (Suc i) = rewardsAfter r es i"
  "rewardsAfter r (e # es) 0 = r + sum_list (map HistoryEntry.reward es)"
  by (simp_all add: rewardsAfter_def)

text \<open>
  Claim C4. For a sealed history, non-terminal entries followed by the terminal entry,
  \<open>interpretHistory\<close> returns as reward the terminal reward plus the rewards of all
  the entries, and one feedback record per entry (the last entry's first), whose
  \<open>expected\<close> is the entry's quality and whose \<open>actual\<close> is the terminal reward plus
  the rewards of the entries after it, its own left out. On the terminal entry alone
  the feedback is empty and the reward is the terminal reward.
\<close>

theorem interpretHistory_sealed:
  "interpretHistory (map NonTerminal es @ [Terminal r a]) =
     Inr \<lparr>Interpretation.reward = r + sum_list (map HistoryEntry.reward es),
          feedBack = rev (map (\<lambda>i. feedBackOf (es ! i) (rewardsAfter r es i)) [0..<length es]),
          Interpretation.score = Player.score a\<rparr> \<and>
   interpretHistory [Terminal r a] =
     Inr \<lparr>Interpretation.reward = r, feedBack = [], Interpretation.score = Player.score a\<rparr>"
proof
  show "interpretHistory (map NonTerminal es @ [Terminal r a]) =
     Inr \<lparr>Interpretation.reward = r + sum_list (map HistoryEntry.reward es),
          feedBack = rev (map (\<lambda>i. feedBackOf (es ! i) (rewardsAfter r es i)) [0..<length es]),
          Interpretation.score = Player.score a\<rparr>"
  proof (induction es)
    case Nil
    show ?case by simp
  next
    case (Cons e es)
    have "map (\<lambda>i. feedBackOf ((e # es) ! i) (rewardsAfter r (e # es) i)) [0..<length (e # es)] =
          feedBackOf e (r + sum_list (map HistoryEntry.reward es)) #
          map (\<lambda>i. feedBackOf (es ! i) (rewardsAfter r es i)) [0..<length es]"
      by (simp add: upt_conv_Cons map_Suc_upt [symmetric] rewardsAfter_Cons del: upt_Suc)
    with Cons show ?case
      by (simp add: feedBackOf_def del: upt_Suc)
  qed
  show "interpretHistory [Terminal r a] =
     Inr \<lparr>Interpretation.reward = r, feedBack = [], Interpretation.score = Player.score a\<rparr>"
    by simp
qed

section \<open>Properties of the deck and the deal\<close>

lemma toInt32_index:
  assumes "0 \<le> x" and "x < 1" and "0 < n" and "n < 2 ^ 31"
  shows "0 \<le> toInt32 (x * real n) \<and> toInt32 (x * real n) < int n"
proof -
  have nn: "0 \<le> x * real n" using assms by simp
  have lt: "x * real n < real n" using assms by simp
  have f0: "0 \<le> \<lfloor>x * real n\<rfloor>" using nn by simp
  have f2: "\<lfloor>x * real n\<rfloor> < int n" using lt
    by (simp add: floor_less_iff)
  have "int n < 2147483648" using assms(4) by simp
  with f2 have f3: "\<lfloor>x * real n\<rfloor> < 2147483648" by linarith
  with f0 have f4: "\<lfloor>x * real n\<rfloor> mod 4294967296 = \<lfloor>x * real n\<rfloor>"
    by (intro mod_pos_pos_trivial) simp_all
  have "toInt32 (x * real n) = \<lfloor>x * real n\<rfloor>"
    using nn f3 f4 by (simp add: toInt32_def Let_def)
  with f0 f2 show ?thesis by simp
qed

lemma shuffleStep_perm:
  assumes "inUnitInterval random" and "i < length deck" and "length deck < 2 ^ 31"
  shows "\<exists>d. shuffleStep random (Some deck) i = Some d \<and> mset d = mset deck"
proof -
  let ?j = "toInt32 (random i * real (length deck))"
  from assms have r: "0 \<le> random i" "random i < 1" by (simp_all add: inUnitInterval_def)
  from assms(2) have "0 < length deck" by (cases deck) simp_all
  from toInt32_index [OF r this assms(3)]
  have j: "0 \<le> ?j" "?j < int (length deck)" by simp_all
  then have jn: "nat ?j < length deck" by simp
  have "mset ((deck[i := deck ! nat ?j])[nat ?j := deck ! i]) = mset deck"
    using mset_swap [OF jn assms(2)] .
  with j show ?thesis
    by (simp add: shuffleStep_def Let_def)
qed

lemma shuffle_prefix:
  assumes "inUnitInterval random" and "length deck < 2 ^ 31"
  shows "m \<le> length deck \<Longrightarrow>
         \<exists>d. foldl (shuffleStep random) (Some deck) [0..<m] = Some d \<and> mset d = mset deck"
proof (induction m)
  case 0
  show ?case by simp
next
  case (Suc m)
  then obtain d where d: "foldl (shuffleStep random) (Some deck) [0..<m] = Some d"
    and md: "mset d = mset deck" by auto
  from md have ld: "length d = length deck" by (metis size_mset)
  from shuffleStep_perm [OF assms(1), of m d] Suc.prems ld assms(2)
  obtain d' where "shuffleStep random (Some d) m = Some d'" "mset d' = mset d" by auto
  with d md show ?case by simp
qed

lemma shuffleDeck_perm:
  assumes "inUnitInterval random" and "length deck < 2 ^ 31"
  shows "\<exists>d. shuffleDeck deck random = Some d \<and> mset d = mset deck"
  using shuffle_prefix [OF assms, of "length deck"] by (simp add: shuffleDeck_def)

lemma upt_2_15: "[2..<15] = [2,3,4,5,6,7,8,9,10,11,12,13,14]"
  by (simp add: upt_rec)

lemma freshDeck_length: "length freshDeck = 52"
  by (simp add: freshDeck_def suits_keys_def upt_2_15)

lemma freshDeck_distinct: "distinct freshDeck"
  by (simp add: freshDeck_def suits_keys_def upt_2_15 card_create_def
      suits_clubs_def suits_diamonds_def suits_spades_def suits_hearts_def)

lemma freshDeck_twoOfClubs: "twoOfClubs \<in> set freshDeck"
  by (simp add: freshDeck_def suits_keys_def upt_2_15 card_create_def twoOfClubs_def)

lemma freshDeck_points:
  "sum_list (map (\<lambda>c. cardPoints c simpl) freshDeck) = (if simpl then 13 else 26)"
  by (simp add: freshDeck_def suits_keys_def upt_2_15 card_create_def cardPoints_def
      suits_clubs_def suits_diamonds_def suits_spades_def suits_hearts_def)

lemma deal_eq:
  "deal deck = [createPlayer (slice deck 0 13), createPlayer (slice deck 13 26),
                createPlayer (slice deck 26 39), createPlayer (slice deck 39 52)]"
  by (simp add: deal_def upt4)

lemma deal_concat:
  assumes "length deck = 52"
  shows "slice deck 0 13 @ slice deck 13 26 @ slice deck 26 39 @ slice deck 39 52 = deck"
proof -
  have a: "take 13 (drop 39 deck) = drop 39 deck" using assms by simp
  have "take 13 deck @ (take 13 (drop 13 deck) @ (take 13 (drop 26 deck) @ drop 39 deck)) = deck"
    using append_take_drop_id [of 13 deck] append_take_drop_id [of 13 "drop 13 deck"]
      append_take_drop_id [of 13 "drop 26 deck"] by simp
  with a show ?thesis by (simp add: slice_def)
qed

lemma slice_length13:
  assumes "length deck = 52"
  shows "length (slice deck 0 13) = 13" "length (slice deck 13 26) = 13"
        "length (slice deck 26 39) = 13" "length (slice deck 39 52) = 13"
  using assms by (simp_all add: slice_def)

lemma indexOf_Some: "indexOf xs x = Some i \<Longrightarrow> i < length xs \<and> xs ! i = x"
  by (induction xs arbitrary: i) (auto split: if_splits)

lemma indexOf_mem: "x \<in> set xs \<Longrightarrow> \<exists>i. indexOf xs x = Some i"
  by (induction xs) auto

lemma holds_twoOfClubs:
  "(find (\<lambda>c. Card.suit c = suits_clubs \<and> rank c = 2) h \<noteq> None) = (twoOfClubs \<in> set h)"
proof -
  have "\<And>c :: Card. (Card.suit c = suits_clubs \<and> rank c = 2) = (c = twoOfClubs)"
    by (auto simp: twoOfClubs_def)
  then show ?thesis
    by (auto simp: find_None_iff)
qed

lemma playerWithCard_clubs:
  "playerWithCard ps suits_clubs 2 = find (\<lambda>p. twoOfClubs \<in> set (hand p)) ps"
  by (simp only: playerWithCard_def holds_twoOfClubs)

lemma startingSeat:
  assumes "\<exists>p\<in>set ps. twoOfClubs \<in> set (hand p)"
  shows "\<exists>p i. playerWithCard ps suits_clubs 2 = Some p \<and> indexOf ps p = Some i \<and>
               i < length ps \<and> twoOfClubs \<in> set (hand (ps ! i))"
proof -
  from assms obtain p where p: "find (\<lambda>p. twoOfClubs \<in> set (hand p)) ps = Some p"
    by (cases "find (\<lambda>p. twoOfClubs \<in> set (hand p)) ps") (auto simp: find_None_iff)
  then have m: "p \<in> set ps" and h: "twoOfClubs \<in> set (hand p)"
    by (auto simp: find_Some_iff)
  from indexOf_mem [OF m] obtain i where i: "indexOf ps p = Some i" by auto
  from indexOf_Some [OF i] h p i show ?thesis
    by (auto simp: playerWithCard_clubs)
qed

lemma initialState_ok:
  assumes "inUnitInterval random"
  shows "\<exists>deck st. shuffleDeck freshDeck random = Some deck \<and> mset deck = mset freshDeck \<and>
           initialState simpl random = Inr st \<and>
           players st = deal deck \<and> trick st = \<lparr>Trick.suit = None, cards = []\<rparr> \<and>
           \<not> heartsBroken st \<and> simplified st = simpl \<and>
           trickLeader st < 4 \<and> twoOfClubs \<in> set (hand (players st ! trickLeader st))"
proof -
  from shuffleDeck_perm [OF assms, of freshDeck] obtain deck where
    d: "shuffleDeck freshDeck random = Some deck" and m: "mset deck = mset freshDeck"
    by (auto simp: freshDeck_length)
  from m have len: "length deck = 52" by (metis size_mset freshDeck_length)
  from m have "set deck = set freshDeck" by (metis set_mset_mset)
  with freshDeck_twoOfClubs have "twoOfClubs \<in> set deck" by simp
  with deal_concat [OF len] have
    "twoOfClubs \<in> set (slice deck 0 13 @ slice deck 13 26 @ slice deck 26 39 @ slice deck 39 52)"
    by simp
  then have "\<exists>p\<in>set (deal deck). twoOfClubs \<in> set (hand p)"
    by (auto simp: deal_eq createPlayer_def)
  from startingSeat [OF this] obtain p i where
    "playerWithCard (deal deck) suits_clubs 2 = Some p" "indexOf (deal deck) p = Some i"
    "i < length (deal deck)" "twoOfClubs \<in> set (hand (deal deck ! i))" by auto
  with d m show ?thesis
    by (auto simp: initialState_def Let_def deal_eq)
qed

section \<open>Properties of a whole game\<close>

lemma played_0 [simp]: "\<not> played L 0 k"
  by (simp add: played_def)

lemma played_Suc: "played L (Suc m) k = (played L m k \<or> k = (L + m) mod 4)"
  by (auto simp: played_def less_Suc_eq)

lemma lt4_cases: "k < (4::nat) \<Longrightarrow> k = 0 \<or> k = 1 \<or> k = 2 \<or> k = 3"
  by arith

lemma seat_mod: "(L + m) mod 4 = (L mod 4 + m) mod (4::nat)"
  by (simp add: mod_add_left_eq)

lemma mod4_inj:
  assumes "j < m" and "m < 4"
  shows "(L + j) mod 4 \<noteq> (L + m) mod (4::nat)"
proof -
  have r: "L mod 4 < 4" by simp
  from assms have j: "j < 4" by simp
  have "(L mod 4 + j) mod 4 \<noteq> (L mod 4 + m) mod 4"
    using lt4_cases [OF r] lt4_cases [OF assms(2)] lt4_cases [OF j] assms(1)
    by (elim disjE) simp_all
  then show ?thesis by (simp only: seat_mod [of L j] seat_mod [of L m] not_False_eq_True)
qed

lemma mod4_surj:
  assumes "k < 4"
  shows "k = (L + (k + 4 - L mod 4) mod 4) mod (4::nat)"
proof -
  have r: "L mod 4 < 4" by simp
  have "k = (L mod 4 + (k + 4 - L mod 4) mod 4) mod 4"
    using lt4_cases [OF r] lt4_cases [OF assms]
    by (elim disjE) simp_all
  then show ?thesis by (simp only: seat_mod [of L "(k + 4 - L mod 4) mod 4"])
qed

lemma played_fresh: "m < 4 \<Longrightarrow> \<not> played L m ((L + m) mod 4)"
  by (auto simp: played_def dest: mod4_inj [where L = L])

lemma played_4: "k < 4 \<Longrightarrow> played L 4 k"
proof -
  assume k: "k < 4"
  have "(k + 4 - L mod 4) mod 4 < 4" by simp
  with mod4_surj [OF k, of L] show ?thesis unfolding played_def by blast
qed

lemma selectPlay_snoc:
  "selectPlay (xs @ [x]) =
     (case selectPlay xs of
        None \<Rightarrow> Some x
      | Some sel \<Rightarrow> if ActionSummary.quality x > ActionSummary.quality sel then Some x else Some sel)"
  by (simp add: selectPlay_def split: option.splits)

lemma selectPlay_mem:
  "xs \<noteq> [] \<Longrightarrow> \<exists>s. selectPlay xs = Some s \<and> s \<in> set xs"
proof (induction xs rule: rev_induct)
  case Nil
  then show ?case by simp
next
  case (snoc x xs)
  show ?case
  proof (cases "xs = []")
    case True
    then show ?thesis by (simp add: selectPlay_def)
  next
    case False
    with snoc.IH obtain s where "selectPlay xs = Some s" "s \<in> set xs" by auto
    then show ?thesis by (simp add: selectPlay_snoc)
  qed
qed


lemma validPlays_subset: "set (validPlays st h) \<subseteq> set h"
  by (auto simp: validPlays_def Let_def split: option.splits)

lemma validPlays_nonempty: "h \<noteq> [] \<Longrightarrow> validPlays st h \<noteq> []"
  by (auto simp: validPlays_def Let_def hasSuit_foldl filter_empty_conv split: option.splits)

lemma mapIdx_update:
  "seat < length xs \<Longrightarrow> mapIdx (\<lambda>p k. if k = seat then f p else p) xs = xs[seat := f (xs ! seat)]"
  by (rule nth_equalityI) (auto simp: nth_list_update)

lemma mapIdx_id: "mapIdx (\<lambda>p k. p) xs = xs"
  by (rule nth_equalityI) auto

lemma sum_list_map_update:
  "k < length xs \<Longrightarrow>
     sum_list (map g (xs[k := v])) = sum_list (map g xs) - g (xs ! k) + (g v :: int)"
proof (induction xs arbitrary: k)
  case Nil
  then show ?case by simp
next
  case (Cons x xs)
  then show ?case by (cases k) auto
qed

lemma pointsOf_removeAll:
  "distinct h \<Longrightarrow> a \<in> set h \<Longrightarrow> pointsOf simpl (removeAll a h) = pointsOf simpl h - cardPoints a simpl"
  using sum_list_map_remove1 [of a h "\<lambda>c. cardPoints c simpl"]
  by (simp add: pointsOf_def distinct_remove1_removeAll [symmetric])

lemma length_removeAll_distinct:
  "distinct h \<Longrightarrow> a \<in> set h \<Longrightarrow> length (removeAll a h) = length h - 1"
  by (simp add: distinct_remove1_removeAll [symmetric] length_remove1)

lemma playCard_players_nth:
  assumes "k < length (players st)"
  shows "players (fst (playCard st rec seat summ)) ! k =
           (if k = seat
            then (players st ! k)
                   \<lparr>hand := removeAll (ActionSummary.action summ) (hand (players st ! k)),
                    playsOutOfSuit := playsOutOfSuit (players (fst (playCard st rec seat summ)) ! k)\<rparr>
            else players st ! k)"
  using assms by (simp add: playCard_def Let_def filter_neq_removeAll)

lemma playCard_players_length:
  "length (players (fst (playCard st rec seat summ))) = length (players st)"
  by (simp add: playCard_def Let_def)

lemma playCard_players:
  assumes "seat < length (players st)"
  shows "\<exists>p'. players (fst (playCard st rec seat summ)) = (players st)[seat := p'] \<and>
              hand p' = removeAll (ActionSummary.action summ) (hand (players st ! seat)) \<and>
              Player.score p' = Player.score (players st ! seat)"
proof (intro exI conjI)
  let ?ps' = "players (fst (playCard st rec seat summ))"
  show "?ps' = (players st)[seat := ?ps' ! seat]"
  proof (rule nth_equalityI)
    show "length ?ps' = length ((players st)[seat := ?ps' ! seat])"
      by (simp add: playCard_players_length)
  next
    fix k
    assume "k < length ?ps'"
    then have k: "k < length (players st)" by (simp add: playCard_players_length)
    show "?ps' ! k = (players st)[seat := ?ps' ! seat] ! k"
    proof (cases "k = seat")
      case True
      with k show ?thesis by simp
    next
      case False
      with k playCard_players_nth [OF k, of rec seat summ] show ?thesis by simp
    qed
  qed
  from playCard_players_nth [OF assms, of rec seat summ]
  have e: "?ps' ! seat = (players st ! seat)
             \<lparr>hand := removeAll (ActionSummary.action summ) (hand (players st ! seat)),
              playsOutOfSuit := playsOutOfSuit (?ps' ! seat)\<rparr>"
    by simp
  show "hand (?ps' ! seat) = removeAll (ActionSummary.action summ) (hand (players st ! seat))"
    by (subst e) simp
  show "Player.score (?ps' ! seat) = Player.score (players st ! seat)"
    by (subst e) simp
qed

lemma playCard_rest:
  "trickLeader (fst (playCard st rec seat summ)) = trickLeader st"
  "simplified (fst (playCard st rec seat summ)) = simplified st"
  "trickPoints (trick (fst (playCard st rec seat summ))) simpl =
     trickPoints (trick st) simpl + cardPoints (ActionSummary.action summ) simpl"
  by (simp_all add: playCard_def Let_def trickPoints_def)

lemma playCard_snd:
  "snd (playCard st r seat summ) =
     r(seat := r seat @ [RecordAction st (ActionSummary.action summ)
                           (ActionSummary.quality summ) (ActionSummary.trace summ)])"
  by (simp add: playCard_def Let_def)

lemma playTurn_step:
  assumes c: "\<forall>seat<4. choosesOffered (policies seat)"
    and inv: "midInv L n T simpl m st"
    and rc: "midRec L m rec0 rec"
    and m: "m < 4"
  shows "\<exists>st' rec'. playTurn policies m (st, rec) = Inr (st', rec') \<and>
           midInv L n T simpl (Suc m) st' \<and> midRec L (Suc m) rec0 rec'"
proof -
  let ?seat = "(L + m) mod 4"
  let ?p = "players st ! ?seat"
  let ?h = "hand ?p"
  let ?plays = "validPlays st ?h"
  let ?cands = "policies ?seat st ?p ?plays"
  have seat: "?seat < 4" by simp
  from inv have len: "length (players st) = 4" and L: "trickLeader st = L"
    and si: "simplified st = simpl" and tb: "trickBuilt (trick st)"
    and lc: "length (cards (trick st)) = m"
    and tot: "totalScore st + handPoints st + trickPoints (trick st) simpl = T"
    and hands: "\<forall>k<4. distinct (hand (players st ! k)) \<and>
              length (hand (players st ! k)) = (if played L m k then n else Suc n)"
    by (simp_all add: midInv_def)
  have np: "\<not> played L m ?seat" by (rule played_fresh [OF m])
  from hands seat np have dh: "distinct ?h" and lh: "length ?h = Suc n" by auto
  from lh have "?h \<noteq> []" by auto
  then have pne: "?plays \<noteq> []" by (rule validPlays_nonempty)
  from c seat have co: "choosesOffered (policies ?seat)" by blast
  from co pne have cne: "?cands \<noteq> []" unfolding choosesOffered_def by blast
  from co have sub: "\<forall>s\<in>set ?cands. ActionSummary.action s \<in> set ?plays"
    unfolding choosesOffered_def by blast
  from selectPlay_mem [OF cne] obtain play where
    sp: "selectPlay ?cands = Some play" and pm: "play \<in> set ?cands" by auto
  let ?a = "ActionSummary.action play"
  from sub pm have ap: "?a \<in> set ?plays" by simp
  with validPlays_subset have ah: "?a \<in> set ?h" by blast
  let ?rec1 = "rec(?seat := rec ?seat @ [PolicyCall st ?plays])"
  let ?st' = "fst (playCard st ?rec1 ?seat play)"
  let ?rec' = "snd (playCard st ?rec1 ?seat play)"
  have pt: "playTurn policies m (st, rec) = Inr (?st', ?rec')"
    using len L sp seat by (simp add: playTurn_def Let_def)
  from seat len have sl: "?seat < length (players st)" by simp
  from playCard_players [OF sl, of ?rec1 play] obtain p' where
    ps: "players ?st' = (players st)[?seat := p']" and
    hp: "hand p' = removeAll ?a ?h" and
    sc: "Player.score p' = Player.score ?p" by auto
  have ts: "totalScore ?st' = totalScore st"
    using sl by (simp add: totalScore_def ps sum_list_map_update sc)
  have hpts: "handPoints ?st' = handPoints st - cardPoints ?a simpl"
    using sl by (simp add: handPoints_def ps sum_list_map_update hp playCard_rest si
        pointsOf_removeAll [OF dh ah])
  have tp: "trickPoints (trick ?st') simpl = trickPoints (trick st) simpl + cardPoints ?a simpl"
    by (rule playCard_rest)
  have hands': "\<forall>k<4. distinct (hand (players ?st' ! k)) \<and>
              length (hand (players ?st' ! k)) = (if played L (Suc m) k then n else Suc n)"
  proof (intro allI impI)
    fix k :: nat
    assume k: "k < 4"
    show "distinct (hand (players ?st' ! k)) \<and>
          length (hand (players ?st' ! k)) = (if played L (Suc m) k then n else Suc n)"
    proof (cases "k = ?seat")
      case True
      with sl have "hand (players ?st' ! k) = removeAll ?a ?h" by (simp add: ps hp)
      with dh ah lh True show ?thesis
        by (simp add: length_removeAll_distinct played_Suc distinct_removeAll)
    next
      case False
      with k len have "players ?st' ! k = players st ! k" by (simp add: ps)
      with hands k False show ?thesis by (simp add: played_Suc)
    qed
  qed
  have inv': "midInv L n T simpl (Suc m) ?st'"
    unfolding midInv_def
    using hands' ts hpts tp tot len L si lc tb
    by (simp add: playCard_players_length playCard_rest playCard_trickBuilt playCard_cards)
  have rec': "midRec L (Suc m) rec0 ?rec'"
    unfolding midRec_def
  proof (intro allI impI)
    fix k :: nat
    assume k: "k < 4"
    show "if played L (Suc m) k then \<exists>cs. ?rec' k = rec0 k @ cs \<and> legalPlay k cs
          else ?rec' k = rec0 k"
    proof (cases "k = ?seat")
      case True
      from rc seat np have "rec ?seat = rec0 ?seat" by (simp add: midRec_def)
      then have "?rec' k = rec0 k @ [PolicyCall st ?plays,
          RecordAction st ?a (ActionSummary.quality play) (ActionSummary.trace play)]"
        using True by (simp add: playCard_snd)
      moreover have "legalPlay k [PolicyCall st ?plays,
          RecordAction st ?a (ActionSummary.quality play) (ActionSummary.trace play)]"
        unfolding legalPlay_def using True ap by blast
      ultimately show ?thesis using True by (simp add: played_Suc)
    next
      case False
      then have "?rec' k = rec k" by (simp add: playCard_snd)
      with rc k False show ?thesis by (simp add: midRec_def played_Suc)
    qed
  qed
  from pt inv' rec' show ?thesis by blast
qed

lemma resolve_players:
  fixes points :: int and w :: nat and ps :: "Player list"
  assumes "w < length ps"
  defines "ps' \<equiv> mapIdx (\<lambda>p k. if points \<noteq> 0 \<and> k = w
                             then p\<lparr>Player.score := Player.score p + points\<rparr> else p) ps"
  shows "length ps' = length ps"
    and "\<forall>k<length ps. hand (ps' ! k) = hand (ps ! k)"
    and "sum_list (map Player.score ps') = sum_list (map Player.score ps) + points"
    and "sum_list (map (\<lambda>p. pointsOf s (hand p)) ps') = sum_list (map (\<lambda>p. pointsOf s (hand p)) ps)"
proof -
  show "length ps' = length ps" by (simp add: ps'_def)
  show "\<forall>k<length ps. hand (ps' ! k) = hand (ps ! k)" by (simp add: ps'_def)
  show "sum_list (map Player.score ps') = sum_list (map Player.score ps) + points"
  proof (cases "points = 0")
    case True
    then show ?thesis by (simp add: ps'_def mapIdx_id)
  next
    case False
    then have "ps' = ps[w := (ps ! w)\<lparr>Player.score := Player.score (ps ! w) + points\<rparr>]"
      using assms(1) by (simp add: ps'_def mapIdx_update)
    then show ?thesis using assms(1) by (simp add: sum_list_map_update)
  qed
  show "sum_list (map (\<lambda>p. pointsOf s (hand p)) ps') = sum_list (map (\<lambda>p. pointsOf s (hand p)) ps)"
  proof (cases "points = 0")
    case True
    then show ?thesis by (simp add: ps'_def mapIdx_id)
  next
    case False
    then have "ps' = ps[w := (ps ! w)\<lparr>Player.score := Player.score (ps ! w) + points\<rparr>]"
      using assms(1) by (simp add: ps'_def mapIdx_update)
    then show ?thesis using assms(1) by (simp add: sum_list_map_update)
  qed
qed

lemma resolve_step:
  assumes inv: "midInv L n T simpl 4 st" and rc: "midRec L 4 rec0 rec"
  shows "\<exists>st' rec'. resolveTrick (st, rec) = Inr (st', rec') \<and> roundInv n T simpl st' \<and>
           (\<forall>k<4. \<exists>cs. rec' k = rec0 k @ cs \<and> legalTurn k cs)"
proof -
  from inv have len: "length (players st) = 4" and L: "trickLeader st = L"
    and si: "simplified st = simpl" and tb: "trickBuilt (trick st)"
    and lc: "length (cards (trick st)) = 4"
    and tot: "totalScore st + handPoints st + trickPoints (trick st) simpl = T"
    and hands: "\<forall>k<4. distinct (hand (players st ! k)) \<and>
              length (hand (players st ! k)) = (if played L 4 k then n else Suc n)"
    by (simp_all add: midInv_def)
  from lc have ne: "cards (trick st) \<noteq> []" by auto
  from trickWinner_built [OF tb ne] obtain c where w: "trickWinner (trick st) = Some c" by auto
  with trickWinner_char_trick [of "trick st"] have "c \<in> set (cards (trick st))" by simp
  from indexOf_mem [OF this] obtain i where i: "indexOf (cards (trick st)) c = Some i" by auto
  let ?w = "(i + L) mod 4"
  let ?points = "trickPoints (trick st) (simplified st)"
  let ?ps' = "mapIdx (\<lambda>p k. if ?points \<noteq> 0 \<and> k = ?w
                             then p\<lparr>Player.score := Player.score p + ?points\<rparr> else p) (players st)"
  let ?st' = "st\<lparr>trickLeader := ?w, trick := \<lparr>Trick.suit = None, cards = []\<rparr>, players := ?ps'\<rparr>"
  let ?rec' = "assignRewards ?points (simplified st) ?w 4 rec"
  have wl: "?w < length (players st)" using len by simp
  have "\<not> 4 \<le> ?w" by simp
  then have r: "resolveTrick (st, rec) = Inr (?st', ?rec')"
    using w i len L by (simp add: resolveTrick_def Let_def)
  note rp = resolve_players [OF wl, where points = ?points]
  have ri: "roundInv n T simpl ?st'"
    unfolding roundInv_def
    using rp(1) rp(2) rp(3) rp(4) [where s = simpl] hands tot len si
    by (simp add: totalScore_def handPoints_def played_4)
  have rr: "\<forall>k<4. \<exists>cs. ?rec' k = rec0 k @ cs \<and> legalTurn k cs"
  proof (intro allI impI)
    fix k :: nat
    assume k: "k < 4"
    with rc obtain cs where cs: "rec k = rec0 k @ cs" and lp: "legalPlay k cs"
      by (auto simp: midRec_def played_4)
    from lp obtain st0 a q t where
      "cs = [PolicyCall st0 (validPlays st0 (hand (players st0 ! k))), RecordAction st0 a q t]"
      "a \<in> set (validPlays st0 (hand (players st0 ! k)))"
      unfolding legalPlay_def by blast
    then have "legalTurn k (cs @ [AssignReward (trickReward ?points (simplified st) ?w k)])"
      unfolding legalTurn_def by auto
    with cs k show "\<exists>cs. ?rec' k = rec0 k @ cs \<and> legalTurn k cs"
      by (auto simp: assignRewards_apply)
  qed
  from r ri rr show ?thesis by blast
qed

lemma playRound_step:
  assumes c: "\<forall>seat<4. choosesOffered (policies seat)"
    and inv: "roundInv (Suc n) T simpl st"
  shows "\<exists>st' rec'. playRound policies (st, rec) = Inr (st', rec') \<and> roundInv n T simpl st' \<and>
           (\<forall>k<4. \<exists>cs. rec' k = rec k @ cs \<and> legalTurn k cs)"
proof -
  let ?L = "trickLeader st"
  from inv have i0: "midInv ?L n T simpl 0 st"
    by (simp add: roundInv_def midInv_def trickBuilt_def trickPoints_def)
  have r0: "midRec ?L 0 rec rec" by (simp add: midRec_def)
  from playTurn_step [OF c i0 r0] obtain st1 rec1 where
    t1: "playTurn policies 0 (st, rec) = Inr (st1, rec1)" and
    i1: "midInv ?L n T simpl (Suc 0) st1" and r1: "midRec ?L (Suc 0) rec rec1" by auto
  from playTurn_step [OF c i1 r1] obtain st2 rec2 where
    t2: "playTurn policies (Suc 0) (st1, rec1) = Inr (st2, rec2)" and
    i2: "midInv ?L n T simpl (Suc (Suc 0)) st2" and r2: "midRec ?L (Suc (Suc 0)) rec rec2" by auto
  from playTurn_step [OF c i2 r2] obtain st3 rec3 where
    t3: "playTurn policies (Suc (Suc 0)) (st2, rec2) = Inr (st3, rec3)" and
    i3: "midInv ?L n T simpl (Suc (Suc (Suc 0))) st3" and
    r3: "midRec ?L (Suc (Suc (Suc 0))) rec rec3" by auto
  from playTurn_step [OF c i3 r3] obtain st4 rec4 where
    t4: "playTurn policies (Suc (Suc (Suc 0))) (st3, rec3) = Inr (st4, rec4)" and
    i4: "midInv ?L n T simpl (Suc (Suc (Suc (Suc 0)))) st4" and
    r4: "midRec ?L (Suc (Suc (Suc (Suc 0)))) rec rec4" by auto
  have four: "Suc (Suc (Suc (Suc 0))) = 4" by simp
  have turns: "playTurns policies (range_list 4) (st, rec) = Inr (st4, rec4)"
    using t1 t2 t3 t4 by (simp add: range_list_def upt4 numeral_2_eq_2 numeral_3_eq_3)
  from resolve_step [OF i4 [unfolded four] r4 [unfolded four]] obtain st' rec' where
    "resolveTrick (st4, rec4) = Inr (st', rec')" "roundInv n T simpl st'"
    "\<forall>k<4. \<exists>cs. rec' k = rec k @ cs \<and> legalTurn k cs" by auto
  with turns show ?thesis by (auto simp: playRound_def)
qed

lemma playRounds_steps:
  assumes c: "\<forall>seat<4. choosesOffered (policies seat)"
  shows "roundInv (length is) T simpl st \<Longrightarrow>
         \<exists>st' rec'. playRounds policies is (st, rec) = Inr (st', rec') \<and> roundInv 0 T simpl st' \<and>
           (\<forall>k<4. \<exists>css. rec' k = rec k @ concat css \<and> length css = length is \<and>
                         (\<forall>cs\<in>set css. legalTurn k cs))"
proof (induction "is" arbitrary: st rec)
  case Nil
  have "\<forall>k<4. \<exists>css. rec k = rec k @ concat css \<and> length css = 0 \<and>
                         (\<forall>cs\<in>set css. legalTurn k cs)"
    by (intro allI impI exI [of _ "[]"]) simp
  with Nil show ?case by simp
next
  case (Cons i "is")
  from Cons.prems have "roundInv (Suc (length is)) T simpl st" by simp
  from playRound_step [OF c this, of rec] obtain st1 rec1 where
    r1: "playRound policies (st, rec) = Inr (st1, rec1)" and
    i1: "roundInv (length is) T simpl st1" and
    l1: "\<forall>k<4. \<exists>cs. rec1 k = rec k @ cs \<and> legalTurn k cs" by auto
  from Cons.IH [OF i1, of rec1] obtain st' rec' where
    r2: "playRounds policies is (st1, rec1) = Inr (st', rec')" and
    i2: "roundInv 0 T simpl st'" and
    l2: "\<forall>k<4. \<exists>css. rec' k = rec1 k @ concat css \<and> length css = length is \<and>
                         (\<forall>cs\<in>set css. legalTurn k cs)" by auto
  have l: "\<forall>k<4. \<exists>css. rec' k = rec k @ concat css \<and> length css = length (i # is) \<and>
                         (\<forall>cs\<in>set css. legalTurn k cs)"
  proof (intro allI impI)
    fix k :: nat
    assume k: "k < 4"
    with l1 obtain cs where a: "rec1 k = rec k @ cs" "legalTurn k cs" by auto
    from l2 k obtain css where b: "rec' k = rec1 k @ concat css" "length css = length is"
      "\<forall>cs\<in>set css. legalTurn k cs" by auto
    from a b show "\<exists>css. rec' k = rec k @ concat css \<and> length css = length (i # is) \<and>
                         (\<forall>cs\<in>set css. legalTurn k cs)"
      by (intro exI [of _ "cs # css"]) simp
  qed
  from r1 r2 i2 l show ?case by auto
qed

lemma pointsOf_append: "pointsOf s (xs @ ys) = pointsOf s xs + pointsOf s ys"
  by (simp add: pointsOf_def)

lemma pointsOf_mset: "mset xs = mset ys \<Longrightarrow> pointsOf s xs = pointsOf s ys"
proof -
  assume "mset xs = mset ys"
  then have "sum_mset (image_mset (\<lambda>c. cardPoints c s) (mset xs)) =
             sum_mset (image_mset (\<lambda>c. cardPoints c s) (mset ys))" by simp
  then show ?thesis
    by (simp add: pointsOf_def sum_mset_sum_list [symmetric] del: sum_mset_sum_list)
qed

lemma deal_roundInv:
  assumes len: "length deck = 52" and d: "distinct deck"
  shows "roundInv 13 (pointsOf simpl deck) simpl
           \<lparr>players = deal deck, trick = \<lparr>Trick.suit = None, cards = []\<rparr>,
            heartsBroken = False, simplified = simpl, trickLeader = L\<rparr>"
proof -
  have "pointsOf simpl (slice deck 0 13 @ slice deck 13 26 @ slice deck 26 39 @ slice deck 39 52) =
        pointsOf simpl deck"
    by (simp only: deal_concat [OF len])
  then have hp: "pointsOf simpl (slice deck 0 13) + pointsOf simpl (slice deck 13 26) +
            pointsOf simpl (slice deck 26 39) + pointsOf simpl (slice deck 39 52) =
            pointsOf simpl deck"
    by (simp add: pointsOf_append)
  have hands: "\<forall>k<4. distinct (hand (deal deck ! k)) \<and> length (hand (deal deck ! k)) = 13"
  proof (intro allI impI)
    fix k :: nat
    assume "k < 4"
    from lt4_cases [OF this] d len
    show "distinct (hand (deal deck ! k)) \<and> length (hand (deal deck ! k)) = 13"
      by (elim disjE) (simp_all add: deal_eq createPlayer_def slice_def)
  qed
  show ?thesis
    unfolding roundInv_def using hands hp
    by (simp add: totalScore_def handPoints_def) (simp add: deal_eq createPlayer_def)
qed

lemma deck_points:
  assumes m: "mset deck = mset freshDeck"
  shows "pointsOf simpl deck = (if simpl then 13 else 26)"
  using pointsOf_mset [OF m, of simpl] freshDeck_points [of simpl] by (simp add: pointsOf_def)

lemma playGame_main:
  assumes c: "\<forall>seat<4. choosesOffered (policies seat)" and u: "inUnitInterval random"
  shows "\<exists>st rec. playGame policies simpl random = Inr (st, rec) \<and>
           roundInv 0 (if simpl then 13 else 26) simpl st \<and>
           (\<forall>k<4. \<exists>css. rec k = concat css \<and> length css = 13 \<and>
                         (\<forall>cs\<in>set css. legalTurn k cs))"
proof -
  from initialState_ok [OF u, of simpl] obtain deck st0 where
    m: "mset deck = mset freshDeck" and
    i: "initialState simpl random = Inr st0" and
    p: "players st0 = deal deck" and t: "trick st0 = \<lparr>Trick.suit = None, cards = []\<rparr>" and
    h: "\<not> heartsBroken st0" and s: "simplified st0 = simpl" by auto
  have "st0 = \<lparr>players = deal deck, trick = \<lparr>Trick.suit = None, cards = []\<rparr>,
            heartsBroken = False, simplified = simpl, trickLeader = trickLeader st0\<rparr>"
    using p t h s by simp
  moreover from m have len: "length deck = 52" by (metis size_mset freshDeck_length)
  moreover from m freshDeck_distinct have d: "distinct deck" by (metis mset_eq_imp_distinct_iff)
  ultimately have "roundInv 13 (pointsOf simpl deck) simpl st0"
    using deal_roundInv [of deck simpl "trickLeader st0"] by simp
  then have "roundInv (length (range_list 13)) (if simpl then 13 else 26) simpl st0"
    by (simp only: deck_points [OF m] range_list_def length_upt diff_zero)
  from playRounds_steps [OF c this, of "\<lambda>seat. []"] i show ?thesis
    by (simp add: playGame_def range_list_def)
qed

lemma legalTurn_counts:
  "\<forall>cs\<in>set css. legalTurn k cs \<Longrightarrow>
     length (filter isRecordAction (concat css)) = length css \<and>
     length (filter isAssignReward (concat css)) = length css \<and>
     legalCalls k (concat css)"
proof (induction css)
  case Nil
  show ?case by (simp add: legalCalls_def)
next
  case (Cons cs css)
  then have "legalTurn k cs" by simp
  then obtain st a q t r where
    cs: "cs = [PolicyCall st (validPlays st (hand (players st ! k))), RecordAction st a q t,
               AssignReward r]" and a: "a \<in> set (validPlays st (hand (players st ! k)))"
    unfolding legalTurn_def by blast
  from Cons have ih: "length (filter isRecordAction (concat css)) = length css"
     "length (filter isAssignReward (concat css)) = length css" "legalCalls k (concat css)"
    by simp_all
  from cs a ih show ?case
    by (auto simp: legalCalls_def)
qed














lemma resolveTrick_errors:
  "resolveTrick sr = Inl (e, r) \<Longrightarrow>
     e = NoTrickWinner \<or> e = WinningCardNotFound \<or> e = NoWinningPlayer"
  by (cases sr) (auto simp: resolveTrick_def Let_def split: option.splits if_splits)

lemma playRound_errors:
  "playRound policies sr = Inl (e, r) \<Longrightarrow>
     e \<noteq> TwoOfClubsNotDealt \<and> e \<noteq> NoPlayerMatched"
  by (auto simp: playRound_def split: sum.splits
           dest: playTurns_errors resolveTrick_errors)

lemma playRounds_errors:
  "playRounds policies is sr = Inl (e, r) \<Longrightarrow>
     e \<noteq> TwoOfClubsNotDealt \<and> e \<noteq> NoPlayerMatched"
proof (induction "is" arbitrary: sr)
  case Nil
  then show ?case by simp
next
  case (Cons i "is")
  show ?case
  proof (cases "playRound policies sr")
    case (Inl er)
    with Cons.prems have "er = (e, r)" by simp
    with Inl playRound_errors show ?thesis by blast
  next
    case (Inr sr')
    with Cons.prems have "playRounds policies is sr' = Inl (e, r)" by simp
    then show ?thesis by (rule Cons.IH)
  qed
qed

text \<open>
  Claim C10, as amended. For every random source whose values lie in \<open>[0, 1)\<close>, as
  those of \<^verbatim>\<open>Math.random\<close> do, the deck built by
  \<open>freshDeck\<close> and shuffled by \<open>shuffleDeck\<close> is a permutation of the fresh deck: it
  still holds the 52 distinct cards. After the deal exactly one seat holds the two of
  clubs, that seat is the initial trick leader, and \<open>playGame\<close> never fails with
  one of the two start-player errors.
\<close>

theorem playGame_starting_seat:
  assumes "inUnitInterval random"
  shows "\<exists>deck st. shuffleDeck freshDeck random = Some deck \<and>
           mset deck = mset freshDeck \<and> length deck = 52 \<and> distinct deck \<and>
           initialState simpl random = Inr st \<and> players st = deal deck \<and>
           trickLeader st < 4 \<and>
           (\<forall>k<4. (twoOfClubs \<in> set (hand (players st ! k))) = (k = trickLeader st)) \<and>
           errorOf (playGame policies simpl random) \<noteq> Some TwoOfClubsNotDealt \<and>
           errorOf (playGame policies simpl random) \<noteq> Some NoPlayerMatched"
proof -
  from initialState_ok [OF assms, of simpl] obtain deck st where
    sh: "shuffleDeck freshDeck random = Some deck" and m: "mset deck = mset freshDeck" and
    i: "initialState simpl random = Inr st" and p: "players st = deal deck" and
    L: "trickLeader st < 4" and h: "twoOfClubs \<in> set (hand (players st ! trickLeader st))"
    by auto
  from m have len: "length deck = 52" by (metis size_mset freshDeck_length)
  from m freshDeck_distinct have d: "distinct deck" by (metis mset_eq_imp_distinct_iff)
  from d deal_concat [OF len] have
    dd: "distinct (slice deck 0 13 @ slice deck 13 26 @ slice deck 26 39 @ slice deck 39 52)"
    by simp
  have u: "\<forall>k<4. (twoOfClubs \<in> set (hand (players st ! k))) = (k = trickLeader st)"
  proof (intro allI impI)
    fix k :: nat
    assume k: "k < 4"
    from lt4_cases [OF k] lt4_cases [OF L] h dd
    show "(twoOfClubs \<in> set (hand (players st ! k))) = (k = trickLeader st)"
      unfolding p deal_eq createPlayer_def
      by (elim disjE) auto
  qed
  have e: "errorOf (playGame policies simpl random) \<noteq> Some TwoOfClubsNotDealt \<and>
        errorOf (playGame policies simpl random) \<noteq> Some NoPlayerMatched"
    using i playRounds_errors [of policies "range_list 13" "(st, \<lambda>seat. [])"]
    by (auto simp: playGame_def errorOf_def split: sum.splits)
  from sh m len d i p L u e show ?thesis by blast
qed

lemma offerAll_choosesOffered: "choosesOffered offerAll"
  by (auto simp: choosesOffered_def offerAll_def)

lemma zero_inUnitInterval: "inUnitInterval (\<lambda>_. 0)"
  by (simp add: inUnitInterval_def)

theorem playGame_starting_seat_witness:
  "\<exists>deck st. shuffleDeck freshDeck (\<lambda>_. 0) = Some deck \<and> distinct deck \<and> length deck = 52 \<and>
      initialState False (\<lambda>_. 0) = Inr st \<and>
      twoOfClubs \<in> set (hand (players st ! trickLeader st)) \<and>
      errorOf (playGame (\<lambda>_. offerAll) False (\<lambda>_. 0)) \<noteq> Some TwoOfClubsNotDealt"
  using playGame_starting_seat [OF zero_inUnitInterval, of False "\<lambda>_. offerAll"]
  by blast

lemma shuffle_None: "foldl (shuffleStep random) None xs = None"
  by (induction xs) (simp_all add: shuffleStep_def)

lemma shuffleDeck_first_out:
  assumes "deck \<noteq> []"
    and "\<not> (0 \<le> toInt32 (random 0 * real (length deck)) \<and>
            toInt32 (random 0 * real (length deck)) < int (length deck))"
  shows "shuffleDeck deck random = None"
proof -
  from assms(1) have "[0..<length deck] = 0 # [1..<length deck]"
    by (cases deck) (simp_all add: upt_rec)
  moreover from assms(2) have "shuffleStep random (Some deck) 0 = None"
    by (simp add: shuffleStep_def Let_def)
  ultimately show ?thesis by (simp add: shuffleDeck_def shuffle_None)
qed

lemma freshDeck_nonempty: "freshDeck \<noteq> []"
  using freshDeck_length by auto

text \<open>
  The claim as it is written fails: \<open>shuffleDeck\<close> does not check the index it
  computes. With the random source that always returns \<open>-1\<close> the index is \<open>-52\<close>:
  the first iteration stores \<^verbatim>\<open>undefined\<close> at position 0, and the shuffled deck has
  lost a card.
\<close>

theorem playGame_starting_seat_counterexample:
  "shuffleDeck freshDeck (\<lambda>_. - 1) = None \<and>
   initialState False (\<lambda>_. - 1) = Inl DeckIndexOutOfRange"
proof -
  have "shuffleDeck freshDeck (\<lambda>_. - 1) = None"
    by (rule shuffleDeck_first_out [OF freshDeck_nonempty])
       (simp add: freshDeck_length toInt32_def)
  then show ?thesis
    by (simp add: initialState_def)
qed

lemma sum_list_map_zero:
  "\<forall>x\<in>set xs. f x = (0::int) \<Longrightarrow> sum_list (map f xs) = 0"
  by (induction xs) auto

text \<open>
  Claim C5, as amended. For every random source whose values lie in \<open>[0, 1)\<close>, as
  those of \<^verbatim>\<open>Math.random\<close> do, and all policies that
  always choose among the offered plays, \<open>playGame\<close> returns; every seat has recorded
  13 actions and has been assigned 13 rewards (13 rounds of 4 plays, 52 plays in all);
  every hand is empty at the end; and the four scores add up to 26 in standard mode
  (13 in simplified mode).
\<close>

theorem playGame_complete:
  assumes "\<forall>seat<4. choosesOffered (policies seat)" and "inUnitInterval random"
  shows "\<exists>st rec. playGame policies simpl random = Inr (st, rec) \<and>
           length (players st) = 4 \<and>
           (\<forall>k<4. hand (players st ! k) = [] \<and>
                   length (filter isRecordAction (rec k)) = 13 \<and>
                   length (filter isAssignReward (rec k)) = 13) \<and>
           sum_list (map (\<lambda>k. length (filter isRecordAction (rec k))) [0..<4]) = 52 \<and>
           sum_list (map Player.score (players st)) = (if simpl then 13 else 26)"
proof -
  from playGame_main [OF assms, of simpl] obtain st rec where
    g: "playGame policies simpl random = Inr (st, rec)" and
    inv: "roundInv 0 (if simpl then 13 else 26) simpl st" and
    l: "\<forall>k<4. \<exists>css. rec k = concat css \<and> length css = 13 \<and> (\<forall>cs\<in>set css. legalTurn k cs)"
    by blast
  from inv have len: "length (players st) = 4" and
    hs: "\<forall>k<4. hand (players st ! k) = []" and
    tot: "totalScore st + handPoints st = (if simpl then 13 else 26)"
    by (simp_all add: roundInv_def)
  from hs len have "\<forall>p\<in>set (players st). hand p = []"
    by (auto simp: in_set_conv_nth)
  then have "\<forall>p\<in>set (players st). pointsOf (simplified st) (hand p) = 0"
    by (simp add: pointsOf_def)
  then have "handPoints st = 0"
    unfolding handPoints_def by (rule sum_list_map_zero)
  with tot have sc: "sum_list (map Player.score (players st)) = (if simpl then 13 else 26)"
    by (simp add: totalScore_def)
  have cnt: "\<forall>k<4. length (filter isRecordAction (rec k)) = 13 \<and>
                   length (filter isAssignReward (rec k)) = 13"
  proof (intro allI impI)
    fix k :: nat
    assume "k < 4"
    with l obtain css where "rec k = concat css" "length css = 13" "\<forall>cs\<in>set css. legalTurn k cs"
      by blast
    with legalTurn_counts [of css k] show "length (filter isRecordAction (rec k)) = 13 \<and>
                   length (filter isAssignReward (rec k)) = 13" by simp
  qed
  then have "sum_list (map (\<lambda>k. length (filter isRecordAction (rec k))) [0..<4]) = 52"
    by (simp add: upt4)
  with g len hs cnt sc show ?thesis by blast
qed

theorem playGame_complete_witness:
  "\<exists>st rec. playGame (\<lambda>_. offerAll) False (\<lambda>_. 0) = Inr (st, rec) \<and>
      (\<forall>k<4. hand (players st ! k) = []) \<and>
      sum_list (map (\<lambda>k. length (filter isRecordAction (rec k))) [0..<4]) = 52 \<and>
      sum_list (map Player.score (players st)) = 26"
proof -
  have c: "\<forall>seat<4::nat. choosesOffered offerAll" by (simp add: offerAll_choosesOffered)
  from playGame_complete [OF c zero_inUnitInterval, of False] show ?thesis
    by auto
qed

text \<open>
  The claim as it is written fails: with the random source that always returns 1 the
  index is the length of the deck, each iteration of \<open>shuffleDeck\<close> stores
  \<^verbatim>\<open>undefined\<close> in the deck and makes it one longer, and no round is ever played.
\<close>

theorem playGame_complete_counterexample:
  "choosesOffered offerAll \<and>
   playGame (\<lambda>_. offerAll) False (\<lambda>_. 1) = Inl (DeckIndexOutOfRange, \<lambda>seat. [])"
proof -
  have "shuffleDeck freshDeck (\<lambda>_. 1) = None"
    by (rule shuffleDeck_first_out [OF freshDeck_nonempty])
       (simp add: freshDeck_length toInt32_def)
  then show ?thesis
    by (simp add: offerAll_choosesOffered playGame_def initialState_def)
qed

lemma recordersOf_simps [simp]:
  "recordersOf (Inl (e, rec)) = rec" "recordersOf (Inr (st, rec)) = rec"
  by (simp_all add: recordersOf_def)














end
